theory Spec2Isabelle
  imports Complex_Main
begin

section \<open>Python values used by evalSpice.py\<close>

text \<open>
  The exceptions the program can raise, one constructor per raise site (or per built-in
  operation that can raise). The comment gives the Python class and message.
\<close>

datatype error =
    MalformedCircuitFile      \<comment> \<open>ValueError("Malformed circuit file"), parsing\<close>
  | DuplicateResistor         \<comment> \<open>ValueError("Duplicate resistor name found.")\<close>
  | InsufficientResistor      \<comment> \<open>ValueError("Insufficient data to access resistor value.")\<close>
  | DuplicateVoltageSource    \<comment> \<open>ValueError("Duplicate voltage source name found.")\<close>
  | InsufficientVoltageSource \<comment> \<open>ValueError("Insufficient data to access voltage source value.")\<close>
  | DuplicateCurrentSource    \<comment> \<open>ValueError("Duplicate current source name found.")\<close>
  | InsufficientCurrentSource \<comment> \<open>ValueError("Insufficient data to access current source value.")\<close>
  | OnlyVIRPermitted          \<comment> \<open>ValueError("Only V, I, R elements are permitted")\<close>
  | IndexError                \<comment> \<open>list or array index out of range\<close>
  | IntValueError             \<comment> \<open>ValueError of int(...) on a non-integer string\<close>
  | NegativeDimensions        \<comment> \<open>ValueError of np.zeros on a negative size\<close>
  | ZeroDivisionError         \<comment> \<open>raise ZeroDivisionError, matrix_formation\<close>
  | MalformedTypeError        \<comment> \<open>TypeError("Malformed circuit file"), matrix_formation\<close>
  | NoSolution                \<comment> \<open>ValueError("Circuit error: no solution"), evalSpice\<close>
  | NonFiniteValue            \<comment> \<open>no exception: \<open>inf\<close> or \<open>nan\<close> would enter the arrays, see \<open>py_float\<close>\<close>

text \<open>The Python exception class of each error.\<close>

datatype pyclass =
  ValueError_class | IndexError_class | ZeroDivisionError_class | TypeError_class | Not_raised

fun class_of :: "error \<Rightarrow> pyclass" where
  "class_of IndexError = IndexError_class"
| "class_of ZeroDivisionError = ZeroDivisionError_class"
| "class_of MalformedTypeError = TypeError_class"
| "class_of NonFiniteValue = Not_raised"
| "class_of _ = ValueError_class"

subsection \<open>Strings: strip, split, upper\<close>

text \<open>
  Strings are ASCII texts. \<open>is_space\<close> is Python's \<open>str.isspace\<close> on ASCII: tab, line feed,
  vertical tab, form feed, carriage return, the separators 0x1C to 0x1F, and space.
\<close>

definition is_space :: "char \<Rightarrow> bool" where
  "is_space c = (let n = (of_char c :: nat) in (9 \<le> n \<and> n \<le> 13) \<or> (28 \<le> n \<and> n \<le> 32))"

definition strip :: "string \<Rightarrow> string" where
  "strip s = rev (dropWhile is_space (rev (dropWhile is_space s)))"

text \<open>\<open>str.split()\<close> with no argument: the maximal runs of non-whitespace characters.\<close>

fun split_ws :: "string \<Rightarrow> string \<Rightarrow> string list" where
  "split_ws acc [] = (if acc = [] then [] else [rev acc])"
| "split_ws acc (c # cs) =
     (if is_space c then (if acc = [] then split_ws [] cs else rev acc # split_ws [] cs)
      else split_ws (c # acc) cs)"

definition split :: "string \<Rightarrow> string list" where
  "split s = split_ws [] s"

definition upper_char :: "char \<Rightarrow> char" where
  "upper_char c = (let n = (of_char c :: nat) in
     if 97 \<le> n \<and> n \<le> 122 then char_of (n - 32) else c)"

definition lower_char :: "char \<Rightarrow> char" where
  "lower_char c = (let n = (of_char c :: nat) in
     if 65 \<le> n \<and> n \<le> 90 then char_of (n + 32) else c)"

subsection \<open>Numbers: str, int, float\<close>

definition digit_char :: "nat \<Rightarrow> char" where
  "digit_char d = char_of (48 + d)"

definition is_digit :: "char \<Rightarrow> bool" where
  "is_digit c = (let n = (of_char c :: nat) in 48 \<le> n \<and> n \<le> 57)"

definition digit_val :: "char \<Rightarrow> nat" where
  "digit_val c = of_char c - 48"

text \<open>\<open>str(n)\<close> for an integer: decimal digits, with a leading minus sign when negative.\<close>

fun str_nat :: "nat \<Rightarrow> string" where
  "str_nat n = (if n < 10 then [digit_char n] else str_nat (n div 10) @ [digit_char (n mod 10)])"

declare str_nat.simps [simp del]

definition str_int :: "int \<Rightarrow> string" where
  "str_int i = (if i < 0 then CHR ''-'' # str_nat (nat (- i)) else str_nat (nat i))"

text \<open>The value of a string of decimal digits, \<open>None\<close> when it is empty or has another character.\<close>

fun digits_val :: "nat \<Rightarrow> string \<Rightarrow> nat option" where
  "digits_val acc [] = Some acc"
| "digits_val acc (c # cs) = (if is_digit c then digits_val (10 * acc + digit_val c) cs else None)"

definition nat_of_digits :: "string \<Rightarrow> nat option" where
  "nat_of_digits s = (if s = [] then None else digits_val 0 s)"

text \<open>
  In a numeric literal a single underscore may stand between two digits. \<open>drop_underscores\<close>
  removes such underscores and is \<open>None\<close> when an underscore stands elsewhere; the flag
  says whether the character before is a digit.
\<close>

fun drop_underscores :: "bool \<Rightarrow> string \<Rightarrow> string option" where
  "drop_underscores prev [] = Some []"
| "drop_underscores prev (c # cs) =
     (if c = CHR ''_'' then
        (case cs of
           [] \<Rightarrow> None
         | d # _ \<Rightarrow> if prev \<and> is_digit d then drop_underscores False cs else None)
      else map_option ((#) c) (drop_underscores (is_digit c) cs))"

text \<open>An optional sign and decimal digits.\<close>

definition signed_digits :: "string \<Rightarrow> int option" where
  "signed_digits s =
     (case s of
        [] \<Rightarrow> None
      | c # cs \<Rightarrow>
          if c = CHR ''-'' then map_option (\<lambda>n. - int n) (nat_of_digits cs)
          else if c = CHR ''+'' then map_option int (nat_of_digits cs)
          else map_option int (nat_of_digits s))"

text \<open>
  \<open>int(s)\<close> on a token: an optional sign and decimal digits, with underscores between
  digits (\<open>None\<close> is Python's ValueError).
\<close>

definition py_int :: "string \<Rightarrow> int option" where
  "py_int s = (case drop_underscores False s of None \<Rightarrow> None | Some t \<Rightarrow> signed_digits t)"

text \<open>
  The rational a decimal literal denotes: an optional sign, digits with an optional
  fraction (or a fraction alone), and an optional exponent, with underscores between
  digits. \<open>None\<close> when the token is not such a literal.
\<close>

definition pow10 :: "int \<Rightarrow> rat" where
  "pow10 e = (if 0 \<le> e then 10 ^ nat e else 1 / 10 ^ nat (- e))"

definition float_exponent :: "string \<Rightarrow> int option" where
  "float_exponent s =
     (case s of
        [] \<Rightarrow> Some 0
      | c # cs \<Rightarrow> if c = CHR ''e'' \<or> c = CHR ''E'' then signed_digits cs else None)"

definition float_mantissa :: "string \<Rightarrow> rat option" where
  "float_mantissa s =
     (let ip = takeWhile is_digit s; r = dropWhile is_digit s in
      case r of
        [] \<Rightarrow> map_option of_nat (nat_of_digits ip)
      | c # fp \<Rightarrow>
          if c \<noteq> CHR ''.'' \<or> (ip = [] \<and> fp = []) then None
          else (case digits_val 0 (ip @ fp) of
                  None \<Rightarrow> None
                | Some m \<Rightarrow> Some (of_nat m / 10 ^ length fp)))"

definition float_unsigned :: "string \<Rightarrow> rat option" where
  "float_unsigned s =
     (let m = takeWhile (\<lambda>c. c \<noteq> CHR ''e'' \<and> c \<noteq> CHR ''E'') s;
          e = dropWhile (\<lambda>c. c \<noteq> CHR ''e'' \<and> c \<noteq> CHR ''E'') s in
      case float_mantissa m of
        None \<Rightarrow> None
      | Some x \<Rightarrow> (case float_exponent e of None \<Rightarrow> None | Some k \<Rightarrow> Some (x * pow10 k)))"

definition float_signed :: "string \<Rightarrow> rat option" where
  "float_signed s =
     (case s of
        [] \<Rightarrow> None
      | c # cs \<Rightarrow>
          if c = CHR ''-'' then map_option uminus (float_unsigned cs)
          else if c = CHR ''+'' then float_unsigned cs
          else float_unsigned s)"

definition literal_value :: "string \<Rightarrow> rat option" where
  "literal_value s =
     (case drop_underscores False s of None \<Rightarrow> None | Some t \<Rightarrow> float_signed t)"

text \<open>
  The range of doubles. A literal of magnitude \<open>2^1024 - 2^970\<close> or more (half a unit in
  the last place above the largest double) converts to an infinity; one of magnitude
  \<open>2^-1075\<close> or less (half the smallest positive double) converts to zero.
\<close>

definition double_overflow :: rat where
  "double_overflow = 2 ^ 1024 - 2 ^ 970"

definition double_underflow :: rat where
  "double_underflow = 1 / 2 ^ 1075"

text \<open>The token without its sign, in lower case: \<open>float\<close> reads its special words so.\<close>

definition float_word :: "string \<Rightarrow> string" where
  "float_word s =
     map lower_char
       (case s of
          [] \<Rightarrow> []
        | c # cs \<Rightarrow> if c = CHR ''-'' \<or> c = CHR ''+'' then cs else s)"

text \<open>
  \<open>float(s)\<close> on a token. \<open>py_float s = Some x\<close>: the result is finite, and \<open>x\<close> is the
  rational the literal denotes, or zero when the literal underflows; rounding of the
  digits to a double is not modelled. \<open>float_is_inf s\<close>: the result is an infinity (the
  words \<open>inf\<close> and \<open>infinity\<close>, or a literal that overflows). \<open>float_is_nan s\<close>: the result
  is a NaN. When none of the three holds \<open>float\<close> raises ValueError.
\<close>

definition py_float :: "string \<Rightarrow> rat option" where
  "py_float s =
     (case literal_value s of
        None \<Rightarrow> None
      | Some q \<Rightarrow>
          if double_overflow \<le> \<bar>q\<bar> then None
          else if \<bar>q\<bar> \<le> double_underflow then Some 0
          else Some q)"

definition float_is_inf :: "string \<Rightarrow> bool" where
  "float_is_inf s =
     (float_word s = ''inf'' \<or> float_word s = ''infinity'' \<or>
      (case literal_value s of None \<Rightarrow> False | Some q \<Rightarrow> double_overflow \<le> \<bar>q\<bar>))"

definition float_is_nan :: "string \<Rightarrow> bool" where
  "float_is_nan s = (float_word s = ''nan'')"

text \<open>
  \<open>Resistor["value"] == 0\<close> compares a \<open>str\<close> with an \<open>int\<close>, which is \<open>False\<close> for every
  string; \<open>float(False)\<close> is \<open>0.0\<close> and \<open>float(True)\<close> is \<open>1.0\<close>.
\<close>

definition str_eq_int :: "string \<Rightarrow> int \<Rightarrow> bool" where
  "str_eq_int s i = False"

definition float_of_bool :: "bool \<Rightarrow> rat" where
  "float_of_bool b = (if b then 1 else 0)"

subsection \<open>Dictionaries\<close>

text \<open>
  A \<open>dict\<close> is a list of key/value pairs in insertion order, with distinct keys:
  \<open>d[k] = v\<close> replaces the value of a present key and appends an absent one.
\<close>

type_synonym ('k, 'v) dict = "('k \<times> 'v) list"

definition dict_set :: "('k, 'v) dict \<Rightarrow> 'k \<Rightarrow> 'v \<Rightarrow> ('k, 'v) dict" where
  "dict_set d k v =
     (if k \<in> fst ` set d then map (\<lambda>(k', v'). if k' = k then (k', v) else (k', v')) d
      else d @ [(k, v)])"

section \<open>The netlist parser\<close>

text \<open>
  A component is the dictionary \<open>{"name", "n1", "n2", "value"}\<close> of strings that
  \<open>parsing\<close> builds: \<open>n1\<close> and \<open>n2\<close> hold \<open>str\<close> of the node indices, \<open>val\<close> (the key
  \<open>"value"\<close>) the raw value token.
\<close>

record component =
  name :: string
  n1 :: string
  n2 :: string
  val :: string

text \<open>
  \<open>mapping_nodes\<close>: a new node name gets the counter as its index and the counter grows by
  one. The dictionary is mutated in place in the source, so the model returns it too.
\<close>

definition mapping_nodes ::
  "string \<Rightarrow> (string, int) dict \<Rightarrow> int \<Rightarrow> int \<times> (string, int) dict \<times> int" where
  "mapping_nodes node_name node_mapping node_counter =
     (case map_of node_mapping node_name of
        None \<Rightarrow> (node_counter, dict_set node_mapping node_name node_counter, node_counter + 1)
      | Some i \<Rightarrow> (i, node_mapping, node_counter))"

text \<open>The local variables of \<open>parsing\<close> that its main loop reads and writes.\<close>

record pstate =
  Resistors :: "component list"
  Voltage_sources :: "component list"
  Current_sources :: "component list"
  node_mapping :: "(string, int) dict"
  node_counter :: int
  Junk :: bool
  resistor_names :: "string set"
  voltage_source_names :: "string set"
  current_source_names :: "string set"

definition init_pstate :: pstate where
  "init_pstate =
     \<lparr>Resistors = [], Voltage_sources = [], Current_sources = [],
      node_mapping = [(''GND'', 0)], node_counter = 1, Junk = True,
      resistor_names = {}, voltage_source_names = {}, current_source_names = {}\<rparr>"

text \<open>
  The body of \<open>if len(words) > 0\<close>, lines 93 to 155. \<open>words[1]\<close> and \<open>words[2]\<close> are read
  before any length check, so fewer than three tokens raise IndexError.
\<close>

definition parse_element :: "pstate \<Rightarrow> string list \<Rightarrow> error + pstate" where
  "parse_element st words =
     (let element_type = upper_char (hd (hd words)) in
      if length words < 3 then Inl IndexError
      else
        let (i1, nm1, c1) = mapping_nodes (words ! 1) (node_mapping st) (node_counter st);
            (i2, nm2, c2) = mapping_nodes (words ! 2) nm1 c1;
            st' = st\<lparr>node_mapping := nm2, node_counter := c2\<rparr>
        in
        if element_type = CHR ''R'' then
          if words ! 0 \<in> resistor_names st then Inl DuplicateResistor
          else if length words < 4 then Inl InsufficientResistor
          else Inr (st'\<lparr>resistor_names := insert (words ! 0) (resistor_names st),
                 Resistors := Resistors st @
                   [\<lparr>name = words ! 0, n1 = str_int i1, n2 = str_int i2, val = words ! 3\<rparr>]\<rparr>)
        else if element_type = CHR ''V'' then
          if words ! 0 \<in> voltage_source_names st then Inl DuplicateVoltageSource
          else if length words < 5 then Inl InsufficientVoltageSource
          else Inr (st'\<lparr>voltage_source_names := insert (words ! 0) (voltage_source_names st),
                 Voltage_sources := Voltage_sources st @
                   [\<lparr>name = words ! 0, n1 = str_int i1, n2 = str_int i2, val = words ! 4\<rparr>]\<rparr>)
        else if element_type = CHR ''I'' then
          if words ! 0 \<in> current_source_names st then Inl DuplicateCurrentSource
          else if length words < 5 then Inl InsufficientCurrentSource
          else Inr (st'\<lparr>current_source_names := insert (words ! 0) (current_source_names st),
                 Current_sources := Current_sources st @
                   [\<lparr>name = words ! 0, n1 = str_int i1, n2 = str_int i2, val = words ! 4\<rparr>]\<rparr>)
        else Inl OnlyVIRPermitted)"

text \<open>One iteration of \<open>for line in lines\<close>, lines 83 to 155.\<close>

definition parse_line :: "pstate \<Rightarrow> string \<Rightarrow> error + pstate" where
  "parse_line st line =
     (if strip line = ''.circuit'' then Inr (st\<lparr>Junk := False\<rparr>)
      else if strip line = ''.end'' then Inr (st\<lparr>Junk := True\<rparr>)
      else if \<not> Junk st then
        (let words = split line in
         if length words > 0 then parse_element st words else Inr st)
      else Inr st)"

fun parse_lines :: "pstate \<Rightarrow> string list \<Rightarrow> error + pstate" where
  "parse_lines st [] = Inr st"
| "parse_lines st (line # lines) =
     (case parse_line st line of Inl e \<Rightarrow> Inl e | Inr st' \<Rightarrow> parse_lines st' lines)"

text \<open>
  \<open>parsing\<close> on the lines \<open>readlines()\<close> returned (opening the file is outside the model).
  The two counting loops reject a file with no \<open>.circuit\<close> line or no \<open>.end\<close> line.
\<close>

definition parsing ::
  "string list \<Rightarrow>
   error + (component list \<times> component list \<times> component list \<times> (string, int) dict \<times> int)" where
  "parsing lines =
     (if length (filter (\<lambda>l. strip l \<noteq> ''.circuit'') lines) = length lines
        then Inl MalformedCircuitFile
      else if length (filter (\<lambda>l. strip l \<noteq> ''.end'') lines) = length lines
        then Inl MalformedCircuitFile
      else
        (case parse_lines init_pstate lines of
           Inl e \<Rightarrow> Inl e
         | Inr st \<Rightarrow>
             Inr (Resistors st, Voltage_sources st, Current_sources st,
                  node_mapping st, node_counter st)))"

section \<open>The equation builder\<close>

subsection \<open>Two-dimensional arrays\<close>

text \<open>
  A two-dimensional \<open>ndarray\<close> is the list of its rows. Entries are exact rationals:
  the rounding and the overflow of arithmetic on doubles are not modelled.
  \<open>py_index\<close> is Python's indexing of an axis of size \<open>n\<close>: an index from \<open>-n\<close> to \<open>-1\<close>
  counts from the end, and an index outside \<open>-n\<close> to \<open>n - 1\<close> raises IndexError.
\<close>

type_synonym ndarray = "rat list list"

definition np_zeros :: "int \<Rightarrow> int \<Rightarrow> error + ndarray" where
  "np_zeros r c =
     (if r < 0 \<or> c < 0 then Inl NegativeDimensions
      else Inr (replicate (nat r) (replicate (nat c) 0)))"

definition py_index :: "nat \<Rightarrow> int \<Rightarrow> nat option" where
  "py_index n i =
     (if 0 \<le> i \<and> i < int n then Some (nat i)
      else if - int n \<le> i \<and> i < 0 then Some (nat (int n + i))
      else None)"

definition nd_get :: "ndarray \<Rightarrow> int \<Rightarrow> int \<Rightarrow> error + rat" where
  "nd_get A i j =
     (case py_index (length A) i of
        None \<Rightarrow> Inl IndexError
      | Some r \<Rightarrow>
          (case py_index (length (A ! r)) j of
             None \<Rightarrow> Inl IndexError
           | Some c \<Rightarrow> Inr (A ! r ! c)))"

definition nd_set :: "ndarray \<Rightarrow> int \<Rightarrow> int \<Rightarrow> rat \<Rightarrow> error + ndarray" where
  "nd_set A i j v =
     (case py_index (length A) i of
        None \<Rightarrow> Inl IndexError
      | Some r \<Rightarrow>
          (case py_index (length (A ! r)) j of
             None \<Rightarrow> Inl IndexError
           | Some c \<Rightarrow> Inr (A[r := (A ! r)[c := v]])))"

text \<open>\<open>A[i][j] += y\<close> (and \<open>-=\<close> with \<open>- y\<close>).\<close>

definition nd_add :: "ndarray \<Rightarrow> int \<Rightarrow> int \<Rightarrow> rat \<Rightarrow> error + ndarray" where
  "nd_add A i j y = (case nd_get A i j of Inl e \<Rightarrow> Inl e | Inr x \<Rightarrow> nd_set A i j (x + y))"

subsection \<open>Stamping\<close>

text \<open>Lines 211 to 220: the entries a resistor of conductance \<open>Y\<close> changes.\<close>

definition stamp_resistor :: "ndarray \<Rightarrow> int \<Rightarrow> int \<Rightarrow> rat \<Rightarrow> error + ndarray" where
  "stamp_resistor Matrix a b Y =
     (if a \<noteq> b then
        (case (if a \<noteq> 0 then nd_add Matrix (a - 1) (a - 1) Y else Inr Matrix) of
           Inl e \<Rightarrow> Inl e
         | Inr M1 \<Rightarrow>
             (case (if b \<noteq> 0 then nd_add M1 (b - 1) (b - 1) Y else Inr M1) of
                Inl e \<Rightarrow> Inl e
              | Inr M2 \<Rightarrow>
                  if a \<noteq> 0 \<and> b \<noteq> 0 then
                    (case nd_add M2 (a - 1) (b - 1) (- Y) of
                       Inl e \<Rightarrow> Inl e
                     | Inr M3 \<Rightarrow> nd_add M3 (b - 1) (a - 1) (- Y))
                  else Inr M2))
      else nd_add Matrix (a - 1) (a - 1) Y)"

text \<open>
  One iteration of \<open>for Resistor in Resistors\<close>, lines 202 to 220. The guard of line 204 is
  \<open>float(Resistor["value"] == 0)\<close>. In line 207 a zero value makes the division raise
  ZeroDivisionError and an unparseable one makes \<open>float\<close> raise ValueError; the bare
  \<open>except\<close> turns both into the TypeError. An infinite value gives the conductance
  \<open>1 / inf = 0.0\<close>. With a NaN the matrix would hold a NaN, which the arrays of the model
  cannot: the model stops there with \<open>NonFiniteValue\<close> and says nothing about what the
  program does next.
\<close>

definition resistor_step :: "ndarray \<Rightarrow> component \<Rightarrow> error + ndarray" where
  "resistor_step Matrix Resistor =
     (case py_int (n1 Resistor) of
        None \<Rightarrow> Inl IntValueError
      | Some a \<Rightarrow>
          (case py_int (n2 Resistor) of
             None \<Rightarrow> Inl IntValueError
           | Some b \<Rightarrow>
               if float_of_bool (str_eq_int (val Resistor) 0) \<noteq> 0 then Inl ZeroDivisionError
               else
                 (case py_float (val Resistor) of
                    Some x \<Rightarrow>
                      if x = 0 then Inl MalformedTypeError
                      else stamp_resistor Matrix a b (1 / x)
                  | None \<Rightarrow>
                      if float_is_inf (val Resistor) then stamp_resistor Matrix a b 0
                      else if float_is_nan (val Resistor) then Inl NonFiniteValue
                      else Inl MalformedTypeError)))"

fun resistor_loop :: "ndarray \<Rightarrow> component list \<Rightarrow> error + ndarray" where
  "resistor_loop Matrix [] = Inr Matrix"
| "resistor_loop Matrix (Resistor # rest) =
     (case resistor_step Matrix Resistor of
        Inl e \<Rightarrow> Inl e
      | Inr M' \<Rightarrow> resistor_loop M' rest)"

text \<open>
  One iteration of \<open>for Current_source in Current_sources\<close>, lines 224 to 233. With an
  infinite or NaN value the model stops with \<open>NonFiniteValue\<close>.
\<close>

definition current_step :: "ndarray \<Rightarrow> component \<Rightarrow> error + ndarray" where
  "current_step Matrix_right Current_source =
     (case py_int (n1 Current_source) of
        None \<Rightarrow> Inl IntValueError
      | Some a \<Rightarrow>
          (case py_int (n2 Current_source) of
             None \<Rightarrow> Inl IntValueError
           | Some b \<Rightarrow>
               (case py_float (val Current_source) of
                  None \<Rightarrow>
                    if float_is_inf (val Current_source) \<or> float_is_nan (val Current_source)
                    then Inl NonFiniteValue else Inl MalformedTypeError
                | Some I \<Rightarrow>
                    (case (if a \<noteq> 0 then nd_add Matrix_right (a - 1) 0 (- I)
                           else Inr Matrix_right) of
                       Inl e \<Rightarrow> Inl e
                     | Inr R1 \<Rightarrow> if b \<noteq> 0 then nd_add R1 (b - 1) 0 I else Inr R1))))"

fun current_loop :: "ndarray \<Rightarrow> component list \<Rightarrow> error + ndarray" where
  "current_loop Matrix_right [] = Inr Matrix_right"
| "current_loop Matrix_right (Current_source # rest) =
     (case current_step Matrix_right Current_source of
        Inl e \<Rightarrow> Inl e
      | Inr R' \<Rightarrow> current_loop R' rest)"

text \<open>
  Lines 243 to 248: the four assignments of the voltage source whose extra row is \<open>r\<close>
  (\<open>total_nodes + i\<close>), the two of \<open>n1\<close> first.
\<close>

definition stamp_voltage_pos :: "ndarray \<Rightarrow> int \<Rightarrow> int \<Rightarrow> error + ndarray" where
  "stamp_voltage_pos Matrix r a =
     (if a \<noteq> 0 then
        (case nd_set Matrix r (a - 1) 1 of
           Inl e \<Rightarrow> Inl e
         | Inr M1 \<Rightarrow> nd_set M1 (a - 1) r 1)
      else Inr Matrix)"

definition stamp_voltage_neg :: "ndarray \<Rightarrow> int \<Rightarrow> int \<Rightarrow> error + ndarray" where
  "stamp_voltage_neg Matrix r b =
     (if b \<noteq> 0 then
        (case nd_set Matrix r (b - 1) (- 1) of
           Inl e \<Rightarrow> Inl e
         | Inr M1 \<Rightarrow> nd_set M1 (b - 1) r (- 1))
      else Inr Matrix)"

text \<open>
  One iteration of \<open>for i, Voltage_source in enumerate(Voltage_sources)\<close>, lines 237 to
  249. With an infinite or NaN value the model stops with \<open>NonFiniteValue\<close>.
\<close>

definition voltage_step ::
  "int \<Rightarrow> int \<Rightarrow> ndarray \<times> ndarray \<Rightarrow> component \<Rightarrow> error + ndarray \<times> ndarray" where
  "voltage_step total_nodes i MR Voltage_source =
     (case py_int (n1 Voltage_source) of
        None \<Rightarrow> Inl IntValueError
      | Some a \<Rightarrow>
          (case py_int (n2 Voltage_source) of
             None \<Rightarrow> Inl IntValueError
           | Some b \<Rightarrow>
               (case py_float (val Voltage_source) of
                  None \<Rightarrow>
                    if float_is_inf (val Voltage_source) \<or> float_is_nan (val Voltage_source)
                    then Inl NonFiniteValue else Inl MalformedTypeError
                | Some V \<Rightarrow>
                    (case stamp_voltage_pos (fst MR) (total_nodes + i) a of
                       Inl e \<Rightarrow> Inl e
                     | Inr M1 \<Rightarrow>
                         (case stamp_voltage_neg M1 (total_nodes + i) b of
                            Inl e \<Rightarrow> Inl e
                          | Inr M2 \<Rightarrow>
                              (case nd_set (snd MR) (total_nodes + i) 0 V of
                                 Inl e \<Rightarrow> Inl e
                               | Inr R' \<Rightarrow> Inr (M2, R')))))))"

fun voltage_loop ::
  "int \<Rightarrow> int \<Rightarrow> ndarray \<times> ndarray \<Rightarrow> component list \<Rightarrow> error + ndarray \<times> ndarray" where
  "voltage_loop total_nodes i MR [] = Inr MR"
| "voltage_loop total_nodes i MR (Voltage_source # rest) =
     (case voltage_step total_nodes i MR Voltage_source of
        Inl e \<Rightarrow> Inl e
      | Inr MR' \<Rightarrow> voltage_loop total_nodes (i + 1) MR' rest)"

text \<open>\<open>matrix_formation\<close>; \<open>node_mapping\<close> is a parameter the function never reads.\<close>

definition matrix_formation ::
  "component list \<Rightarrow> component list \<Rightarrow> component list \<Rightarrow> (string, int) dict \<Rightarrow> int \<Rightarrow>
   error + ndarray \<times> ndarray" where
  "matrix_formation Rs Vs Is nm node_count =
     (let total_nodes = node_count - 1;
          total_voltage_sources = int (length Vs) in
      case np_zeros (total_nodes + total_voltage_sources)
                    (total_nodes + total_voltage_sources) of
        Inl e \<Rightarrow> Inl e
      | Inr Matrix0 \<Rightarrow>
          (case np_zeros (total_nodes + total_voltage_sources) 1 of
             Inl e \<Rightarrow> Inl e
           | Inr Right0 \<Rightarrow>
               (case resistor_loop Matrix0 Rs of
                  Inl e \<Rightarrow> Inl e
                | Inr Matrix1 \<Rightarrow>
                    (case current_loop Right0 Is of
                       Inl e \<Rightarrow> Inl e
                     | Inr Right1 \<Rightarrow> voltage_loop total_nodes 0 (Matrix1, Right1) Vs))))"

section \<open>The solver and the result mapper\<close>

text \<open>
  \<open>np.linalg.solve\<close> is library code (LAPACK's \<open>gesv\<close>: elimination with partial pivoting).
  It is modelled as Gauss-Jordan elimination with partial pivoting on the rows of the
  augmented matrix, in exact rational arithmetic; \<open>None\<close> is \<open>LinAlgError\<close>, raised when a
  pivot is zero, which in exact arithmetic is when the matrix is singular.
\<close>

definition pivot_row :: "nat \<Rightarrow> ndarray \<Rightarrow> nat" where
  "pivot_row k rows =
     fold (\<lambda>i p. if \<bar>rows ! p ! k\<bar> < \<bar>rows ! i ! k\<bar> then i else p) [Suc k..<length rows] k"

definition swap_rows :: "nat \<Rightarrow> nat \<Rightarrow> ndarray \<Rightarrow> ndarray" where
  "swap_rows k p rows = rows[k := rows ! p, p := rows ! k]"

definition eliminate :: "nat \<Rightarrow> ndarray \<Rightarrow> ndarray" where
  "eliminate k rows =
     (let pr = map (\<lambda>x. x / (rows ! k ! k)) (rows ! k) in
      map (\<lambda>(i, row). if i = k then pr else map (\<lambda>(x, y). x - (row ! k) * y) (zip row pr))
        (zip [0..<length rows] rows))"

fun gauss_jordan :: "nat \<Rightarrow> nat \<Rightarrow> ndarray \<Rightarrow> ndarray option" where
  "gauss_jordan 0 k rows = Some rows"
| "gauss_jordan (Suc m) k rows =
     (let p = pivot_row k rows in
      if rows ! p ! k = 0 then None
      else gauss_jordan m (Suc k) (eliminate k (swap_rows k p rows)))"

definition linalg_solve :: "ndarray \<Rightarrow> ndarray \<Rightarrow> ndarray option" where
  "linalg_solve A B =
     (let n = length A in
      map_option (map (drop n)) (gauss_jordan n 0 (map (\<lambda>(a, b). a @ b) (zip A B))))"

text \<open>
  Lines 280 to 287. \<open>for node in node_mapping\<close> with \<open>node_mapping[node]\<close> visits the items
  of the dictionary in insertion order.
\<close>

fun voltages_loop ::
  "(string, rat) dict \<Rightarrow> ndarray \<Rightarrow> (string, int) dict \<Rightarrow> error + (string, rat) dict" where
  "voltages_loop voltages solution [] = Inr voltages"
| "voltages_loop voltages solution ((node, i) # rest) =
     (if node = ''GND'' then voltages_loop (dict_set voltages node 0) solution rest
      else if i \<le> int (length solution) then
        (case nd_get solution (i - 1) 0 of
           Inl e \<Rightarrow> Inl e
         | Inr x \<Rightarrow> voltages_loop (dict_set voltages node x) solution rest)
      else voltages_loop voltages solution rest)"

text \<open>Lines 290 to 301.\<close>

fun currents_loop ::
  "(string, rat) dict \<Rightarrow> ndarray \<Rightarrow> int \<Rightarrow> int \<Rightarrow> component list \<Rightarrow>
   error + (string, rat) dict" where
  "currents_loop currents solution node_count idx [] = Inr currents"
| "currents_loop currents solution node_count idx (Voltage_source # rest) =
     (let current_idx = node_count + idx - 1 in
      if current_idx < int (length solution) then
        (case nd_get solution current_idx 0 of
           Inl e \<Rightarrow> Inl e
         | Inr x \<Rightarrow>
             currents_loop (dict_set currents (name Voltage_source) x) solution node_count
               (idx + 1) rest)
      else currents_loop currents solution node_count (idx + 1) rest)"

text \<open>\<open>evalSpice\<close> on the lines of the file: the pair (voltages, currents) or the exception.\<close>

definition evalSpice :: "string list \<Rightarrow> error + (string, rat) dict \<times> (string, rat) dict" where
  "evalSpice lines =
     (case parsing lines of
        Inl e \<Rightarrow> Inl e
      | Inr (Rs, Vs, Is, nm, node_count) \<Rightarrow>
          (case matrix_formation Rs Vs Is nm node_count of
             Inl e \<Rightarrow> Inl e
           | Inr (Matrix, Matrix_right) \<Rightarrow>
               (case linalg_solve Matrix Matrix_right of
                  None \<Rightarrow> Inl NoSolution
                | Some solution \<Rightarrow>
                    (case voltages_loop [] solution nm of
                       Inl e \<Rightarrow> Inl e
                     | Inr voltages \<Rightarrow>
                         (case currents_loop [] solution node_count 0 Vs of
                            Inl e \<Rightarrow> Inl e
                          | Inr currents \<Rightarrow> Inr (voltages, currents))))))"

section \<open>Notions used in the statements\<close>

text \<open>An array has \<open>r\<close> rows of \<open>c\<close> entries each; a square matrix of size \<open>d\<close> has \<open>d\<close> by \<open>d\<close>.\<close>

definition has_shape :: "nat \<Rightarrow> nat \<Rightarrow> ndarray \<Rightarrow> bool" where
  "has_shape r c A = (length A = r \<and> list_all (\<lambda>row. length row = c) A)"

definition is_square :: "nat \<Rightarrow> ndarray \<Rightarrow> bool" where
  "is_square d A = has_shape d d A"

text \<open>The array \<open>A\<close> with the entry in row \<open>p\<close> and column \<open>q\<close> replaced.\<close>

definition nd_upd :: "ndarray \<Rightarrow> nat \<Rightarrow> nat \<Rightarrow> rat \<Rightarrow> ndarray" where
  "nd_upd A p q v = A[p := (A ! p)[q := v]]"

text \<open>The matrix that is \<open>Y\<close> in row \<open>p\<close>, column \<open>q\<close> and zero elsewhere, at position \<open>(i, j)\<close>.\<close>

definition unit_entry :: "nat \<Rightarrow> nat \<Rightarrow> rat \<Rightarrow> nat \<Rightarrow> nat \<Rightarrow> rat" where
  "unit_entry p q Y i j = (if i = p \<and> j = q then Y else 0)"

text \<open>
  The lines of a file that stand inside a block: after a \<open>.circuit\<close> line and before the
  next \<open>.end\<close> line, the marker lines themselves left out. The flag says whether the scan
  is outside a block; a file starts outside.
\<close>

fun active_lines :: "bool \<Rightarrow> string list \<Rightarrow> string list" where
  "active_lines outside [] = []"
| "active_lines outside (l # ls) =
     (if strip l = ''.circuit'' then active_lines False ls
      else if strip l = ''.end'' then active_lines True ls
      else if outside then active_lines outside ls
      else l # active_lines outside ls)"

text \<open>The node names of a netlist: the second and third token of every line inside a block.\<close>

definition line_node_names :: "string \<Rightarrow> string set" where
  "line_node_names l = set (take 2 (drop 1 (split l)))"

definition netlist_node_names :: "string list \<Rightarrow> string set" where
  "netlist_node_names lines = \<Union> (line_node_names ` set (active_lines True lines))"


text \<open>A line that is neither marker.\<close>

definition not_marker :: "string \<Rightarrow> bool" where
  "not_marker l = (strip l \<noteq> ''.circuit'' \<and> strip l \<noteq> ''.end'')"

section \<open>The range of doubles\<close>

text \<open>
  Literals of moderate size are inside the range of doubles, so \<open>py_float\<close> can be
  evaluated on them without the two thresholds.
\<close>

lemma double_overflow_large: "2 ^ 64 \<le> double_overflow"
proof -
  have a: "(2 :: rat) ^ 970 \<le> 2 ^ 1023" by (rule power_increasing) simp_all
  have b: "(2 :: rat) ^ 64 \<le> 2 ^ 1023" by (rule power_increasing) simp_all
  have c: "(2 :: rat) ^ 1024 = 2 ^ 1023 + 2 ^ 1023"
    using power_add[of "2 :: rat" 1 1023] by simp
  from a b c show ?thesis unfolding double_overflow_def by linarith
qed

lemma double_underflow_small: "double_underflow \<le> 1 / 2 ^ 64"
proof -
  have "(2 :: rat) ^ 64 \<le> 2 ^ 1075" by (rule power_increasing) simp_all
  then show ?thesis unfolding double_underflow_def by (intro divide_left_mono) simp_all
qed

lemma py_float_code [code]:
  "py_float s =
     (case literal_value s of
        None \<Rightarrow> None
      | Some q \<Rightarrow>
          if q = 0 then Some 0
          else if 1 / 2 ^ 64 < \<bar>q\<bar> \<and> \<bar>q\<bar> < 2 ^ 64 then Some q
          else if double_overflow \<le> \<bar>q\<bar> then None
          else if \<bar>q\<bar> \<le> double_underflow then Some 0
          else Some q)"
proof -
  have z: "\<not> double_overflow \<le> 0" "0 \<le> double_underflow"
    using double_overflow_large by (auto simp: double_underflow_def)
  have "\<not> double_overflow \<le> \<bar>q\<bar> \<and> \<not> \<bar>q\<bar> \<le> double_underflow"
    if "1 / 2 ^ 64 < \<bar>q\<bar>" "\<bar>q\<bar> < 2 ^ 64" for q :: rat
    using that double_overflow_large double_underflow_small by linarith
  with z show ?thesis
    by (auto simp: py_float_def split: option.splits)
qed

text \<open>
  \<open>1e400\<close> is beyond the largest double and converts to an infinity; \<open>1e-400\<close> is below
  the smallest and converts to zero.
\<close>

lemma literal_1e400: "literal_value ''1e400'' = Some (10 ^ 400)"
proof -
  have "drop_underscores False ''1e400'' = Some ''1e400''" by code_simp
  moreover have "float_mantissa ''1'' = Some 1" by code_simp
  moreover have "float_exponent ''e400'' = Some 400" by code_simp
  moreover have "takeWhile (\<lambda>c. c \<noteq> CHR ''e'' \<and> c \<noteq> CHR ''E'') ''1e400'' = ''1''"
    "dropWhile (\<lambda>c. c \<noteq> CHR ''e'' \<and> c \<noteq> CHR ''E'') ''1e400'' = ''e400''"
    by simp_all
  ultimately show ?thesis
    by (simp add: literal_value_def float_signed_def float_unsigned_def pow10_def)
qed

lemma ten_400_overflows: "double_overflow \<le> \<bar>10 ^ 400 :: rat\<bar>"
proof -
  have "(2 :: rat) ^ 1024 \<le> 2 ^ 1200" by (rule power_increasing) simp_all
  also have "(2 :: rat) ^ 1200 = (2 ^ 3) ^ 400" by (simp only: power_mult [symmetric]) simp
  also have "\<dots> \<le> 10 ^ 400" by (rule power_mono) simp_all
  finally have "(2 :: rat) ^ 1024 \<le> 10 ^ 400" .
  moreover have "(0 :: rat) \<le> 2 ^ 970" by (rule zero_le_power) simp
  moreover have "\<bar>10 ^ 400 :: rat\<bar> = 10 ^ 400" by (rule abs_of_nonneg, rule zero_le_power) simp
  ultimately show ?thesis unfolding double_overflow_def by linarith
qed

lemma float_1e400: "py_float ''1e400'' = None \<and> float_is_inf ''1e400''"
  using ten_400_overflows by (simp add: py_float_def float_is_inf_def literal_1e400)


lemma literal_1e_minus_400: "literal_value ''1e-400'' = Some (1 / 10 ^ 400)"
proof -
  have "drop_underscores False ''1e-400'' = Some ''1e-400''" by code_simp
  moreover have "float_mantissa ''1'' = Some 1" by code_simp
  moreover have "float_exponent ''e-400'' = Some (- 400)" by code_simp
  moreover have "takeWhile (\<lambda>c. c \<noteq> CHR ''e'' \<and> c \<noteq> CHR ''E'') ''1e-400'' = ''1''"
    "dropWhile (\<lambda>c. c \<noteq> CHR ''e'' \<and> c \<noteq> CHR ''E'') ''1e-400'' = ''e-400''"
    by simp_all
  ultimately show ?thesis
    by (simp add: literal_value_def float_signed_def float_unsigned_def pow10_def)
qed

lemma float_1e_minus_400: "py_float ''1e-400'' = Some 0"
proof -
  let ?q = "1 / 10 ^ 400 :: rat"
  have p: "(2 :: rat) ^ 1075 \<le> 10 ^ 400"
  proof -
    have "(2 :: rat) ^ 1075 \<le> 2 ^ 1200" by (rule power_increasing) simp_all
    also have "(2 :: rat) ^ 1200 = (2 ^ 3) ^ 400" by (simp only: power_mult [symmetric]) simp
    also have "\<dots> \<le> 10 ^ 400" by (rule power_mono) simp_all
    finally show ?thesis .
  qed
  have pos: "(0 :: rat) < 2 ^ 1075" by (rule zero_less_power) simp
  have "?q \<le> 1 / 2 ^ 1075" using p pos by (intro divide_left_mono) simp_all
  moreover have q0: "0 \<le> ?q" by (rule divide_nonneg_nonneg, simp, rule zero_le_power) simp
  ultimately have small: "\<bar>?q\<bar> \<le> double_underflow"
    unfolding double_underflow_def by linarith
  have "?q \<le> 1" using q0 by (intro divide_le_eq_1_pos[THEN iffD2] one_le_power zero_less_power) simp_all
  with q0 double_overflow_large have "\<not> double_overflow \<le> \<bar>?q\<bar>" by simp
  with small show ?thesis by (simp only: py_float_def literal_1e_minus_400 option.case if_False if_True)
qed

section \<open>The end-to-end example\<close>

text \<open>
  C1 (as stated): the netlist \<open>.circuit\<close>, \<open>V1 1 0 10\<close>, \<open>R1 1 0 5\<close>, \<open>.end\<close> is claimed to
  evaluate to voltages GND = 0 and "1" = 10 and current V1 = -2. It does not evaluate at
  all: a voltage source line needs five tokens (the value is the fifth), so \<open>parsing\<close>
  raises the insufficient-data ValueError of voltage sources.
\<close>

theorem evalSpice_spec_example_fails:
  "evalSpice [''.circuit'', ''V1 1 0 10'', ''R1 1 0 5'', ''.end''] =
     Inl InsufficientVoltageSource"
  by code_simp

text \<open>
  With a fourth token on the source line the node named \<open>0\<close> is still an ordinary node, not
  ground (only \<open>GND\<close> has index 0): the circuit floats and the solver rejects it.
\<close>

lemma evalSpice_node_0_is_not_ground:
  "evalSpice [''.circuit'', ''V1 1 0 dc 10'', ''R1 1 0 5'', ''.end''] = Inl NoSolution"
  by code_simp

text \<open>
  C1 (amended): for the netlist \<open>.circuit\<close>, \<open>V1 1 GND dc 10\<close>, \<open>R1 1 GND 5\<close>, \<open>.end\<close>,
  \<open>evalSpice\<close> succeeds; the voltages are GND = 0 and "1" = 10, the currents V1 = -2.
\<close>

theorem evalSpice_example:
  "evalSpice [''.circuit'', ''V1 1 GND dc 10'', ''R1 1 GND 5'', ''.end''] =
     Inr ([(''GND'', 0), (''1'', 10)], [(''V1'', - 2)])"
  by code_simp

section \<open>Resistor values\<close>

text \<open>
  C2: a resistor whose value token parses to zero is claimed to fail with
  ZeroDivisionError. The guard of line 204 compares the token, a string, with the integer 0
  before converting, so it never fires; the division by zero of line 207 is caught by the
  bare \<open>except\<close> and the TypeError is raised instead.
\<close>

theorem evalSpice_zero_resistor:
  "evalSpice [''.circuit'', ''R1 1 GND 0'', ''.end''] = Inl MalformedTypeError"
  by code_simp

text \<open>No resistor makes an iteration of the resistor loop raise ZeroDivisionError.\<close>

lemma resistor_step_not_ZeroDivisionError:
  "resistor_step M r \<noteq> Inl ZeroDivisionError"
proof -
  have guard: "float_of_bool (str_eq_int (val r) 0) = 0"
    by (simp add: float_of_bool_def str_eq_int_def)
  have stamp: "stamp_resistor M a b Y \<noteq> Inl ZeroDivisionError" for a b Y
    by (auto simp: stamp_resistor_def nd_add_def nd_get_def nd_set_def
        split: sum.splits option.splits if_splits)
  show ?thesis
    using guard stamp
    by (auto simp: resistor_step_def split: option.splits)
qed

text \<open>
  The second half of C2 holds: a value token on which \<open>float\<close> raises makes the iteration
  raise the TypeError.
\<close>

lemma resistor_step_unparseable:
  "py_int (n1 r) = Some a \<Longrightarrow> py_int (n2 r) = Some b \<Longrightarrow> py_float (val r) = None \<Longrightarrow>
   \<not> float_is_inf (val r) \<Longrightarrow> \<not> float_is_nan (val r) \<Longrightarrow>
   resistor_step M r = Inl MalformedTypeError"
  by (simp add: resistor_step_def float_of_bool_def str_eq_int_def)

lemma resistor_step_zero:
  "py_int (n1 r) = Some a \<Longrightarrow> py_int (n2 r) = Some b \<Longrightarrow> py_float (val r) = Some 0 \<Longrightarrow>
   resistor_step M r = Inl MalformedTypeError"
  by (simp add: resistor_step_def float_of_bool_def str_eq_int_def)

text \<open>The literal \<open>1e-400\<close> converts to zero, so it raises the TypeError as well.\<close>

lemma resistor_step_underflow:
  "py_int (n1 r) = Some a \<Longrightarrow> py_int (n2 r) = Some b \<Longrightarrow> val r = ''1e-400'' \<Longrightarrow>
   resistor_step M r = Inl MalformedTypeError"
  using float_1e_minus_400 by (simp add: resistor_step_zero)

section \<open>Lines with too few tokens\<close>

text \<open>
  C3: an element line with fewer tokens than its kind needs is claimed to fail with the
  insufficient-data ValueError of its kind, also with one or two tokens. Line 96 reads
  \<open>words[1]\<close> and \<open>words[2]\<close> before the length checks, so a line of one or two tokens
  raises IndexError.
\<close>

theorem parsing_short_line_IndexError:
  "parsing [''.circuit'', ''R1'', ''.end''] = Inl IndexError \<and>
   parsing [''.circuit'', ''V1 1'', ''.end''] = Inl IndexError \<and>
   class_of IndexError = IndexError_class"
  by code_simp

section \<open>Dictionaries and the node map\<close>

lemma in_keysI: "(k, v) \<in> set d \<Longrightarrow> k \<in> fst ` set d"
  by force

lemma map_of_replace:
  "map_of (map (\<lambda>(k', v'). if k' = k then (k', v) else (k', v')) d) x =
     (if x = k \<and> k \<in> fst ` set d then Some v else map_of d x)"
proof (induction d)
  case Nil
  then show ?case by simp
next
  case (Cons p d)
  obtain a b where p: "p = (a, b)" by (cases p)
  show ?case using Cons by (auto simp: p dest: in_keysI)
qed

lemma map_of_dict_set: "map_of (dict_set d k v) = (map_of d)(k \<mapsto> v)"
proof (cases "k \<in> fst ` set d")
  case True
  then show ?thesis by (auto simp: dict_set_def fun_eq_iff map_of_replace)
next
  case False
  then have "map_of d k = None" by (simp add: map_of_eq_None_iff)
  with False show ?thesis
    by (auto simp: dict_set_def fun_eq_iff map_add_def split: option.splits)
qed

lemma map_fst_dict_set:
  "map fst (dict_set d k v) = (if k \<in> fst ` set d then map fst d else map fst d @ [k])"
  by (auto simp: dict_set_def split_beta)

lemma mapping_nodes_map_fst:
  "mapping_nodes n nm c = (i, nm', c') \<Longrightarrow>
   map fst nm' = (if n \<in> fst ` set nm then map fst nm else map fst nm @ [n])"
  by (auto simp: mapping_nodes_def map_fst_dict_set map_of_eq_None_iff split: option.splits
      dest: map_of_SomeD in_keysI)

lemma mapping_nodes_keys:
  "mapping_nodes n nm c = (i, nm', c') \<Longrightarrow> set (map fst nm') = insert n (set (map fst nm))"
  by (auto simp: mapping_nodes_map_fst)

lemma mapping_nodes_distinct:
  "mapping_nodes n nm c = (i, nm', c') \<Longrightarrow> distinct (map fst nm) \<Longrightarrow> distinct (map fst nm')"
  by (auto simp: mapping_nodes_map_fst)

lemma mapping_nodes_bound:
  "mapping_nodes n nm c = (i, nm', c') \<Longrightarrow> \<forall>p\<in>set nm. snd p < c \<Longrightarrow>
   c \<le> c' \<and> (\<forall>p\<in>set nm'. snd p < c')"
  by (fastforce simp: mapping_nodes_def dict_set_def map_of_eq_None_iff split: option.splits)

section \<open>Invariants of the parser\<close>

text \<open>
  An accepted element line has at least three tokens, enters its two node names into the
  node map, and leaves the block flag alone. The keys of the node map stay distinct and
  every index stays below the counter.
\<close>

lemma parse_element_InrD:
  assumes "parse_element st w = Inr st'"
  shows "3 \<le> length w \<and>
         (\<exists>i1 nm1 c1 i2.
            mapping_nodes (w ! 1) (node_mapping st) (node_counter st) = (i1, nm1, c1) \<and>
            mapping_nodes (w ! 2) nm1 c1 = (i2, node_mapping st', node_counter st')) \<and>
         Junk st' = Junk st"
proof -
  obtain i1 nm1 c1 where m1:
    "mapping_nodes (w ! 1) (node_mapping st) (node_counter st) = (i1, nm1, c1)"
    by (cases "mapping_nodes (w ! 1) (node_mapping st) (node_counter st)") auto
  obtain i2 nm2 c2 where m2: "mapping_nodes (w ! 2) nm1 c1 = (i2, nm2, c2)"
    by (cases "mapping_nodes (w ! 2) nm1 c1") auto
  from assms show ?thesis
    by (auto simp: parse_element_def Let_def m1 m2 simp del: One_nat_def split: if_splits)
qed

lemma parse_element_keys:
  assumes "parse_element st w = Inr st'"
  shows "set (map fst (node_mapping st')) =
           set (take 2 (drop 1 w)) \<union> set (map fst (node_mapping st))"
proof -
  from parse_element_InrD[OF assms] obtain i1 nm1 c1 i2 where
    len: "3 \<le> length w" and
    m1: "mapping_nodes (w ! 1) (node_mapping st) (node_counter st) = (i1, nm1, c1)" and
    m2: "mapping_nodes (w ! 2) nm1 c1 = (i2, node_mapping st', node_counter st')"
    by blast
  from len obtain x y z rest where w: "w = x # y # z # rest"
    by (cases w; cases "tl w"; cases "tl (tl w)") auto
  show ?thesis
    using mapping_nodes_keys[OF m1] mapping_nodes_keys[OF m2] by (auto simp: w)
qed

lemma parse_element_inv:
  assumes "parse_element st w = Inr st'"
      and "distinct (map fst (node_mapping st))"
      and "\<forall>p\<in>set (node_mapping st). snd p < node_counter st"
  shows "distinct (map fst (node_mapping st')) \<and>
         (\<forall>p\<in>set (node_mapping st'). snd p < node_counter st')"
proof -
  from parse_element_InrD[OF assms(1)] obtain i1 nm1 c1 i2 where
    m1: "mapping_nodes (w ! 1) (node_mapping st) (node_counter st) = (i1, nm1, c1)" and
    m2: "mapping_nodes (w ! 2) nm1 c1 = (i2, node_mapping st', node_counter st')"
    by blast
  from mapping_nodes_distinct[OF m1 assms(2)] mapping_nodes_bound[OF m1 assms(3)]
  have "distinct (map fst nm1)" "\<forall>p\<in>set nm1. snd p < c1" by auto
  with mapping_nodes_distinct[OF m2] mapping_nodes_bound[OF m2] show ?thesis by auto
qed

lemma parse_line_keys:
  assumes "parse_line st l = Inr st'"
  shows "set (map fst (node_mapping st')) =
           \<Union> (line_node_names ` set (active_lines (Junk st) [l])) \<union>
           set (map fst (node_mapping st))"
proof -
  have empty: "split l = [] \<Longrightarrow> line_node_names l = {}"
    by (simp add: line_node_names_def)
  from assms show ?thesis
    using parse_element_keys[of st "split l" st']
    by (auto simp: parse_line_def Let_def line_node_names_def split: if_splits)
qed

lemma parse_line_Junk:
  assumes "parse_line st l = Inr st'"
  shows "active_lines (Junk st) (l # ls) =
         active_lines (Junk st) [l] @ active_lines (Junk st') ls"
  using assms parse_element_InrD[of st "split l" st']
  by (auto simp: parse_line_def Let_def split: if_splits)

lemma parse_line_inv:
  assumes "parse_line st l = Inr st'"
      and "distinct (map fst (node_mapping st))"
      and "\<forall>p\<in>set (node_mapping st). snd p < node_counter st"
  shows "distinct (map fst (node_mapping st')) \<and>
         (\<forall>p\<in>set (node_mapping st'). snd p < node_counter st')"
proof (cases "strip l = ''.circuit'' \<or> strip l = ''.end'' \<or> Junk st \<or> split l = []")
  case True
  with assms show ?thesis
    by (fastforce simp: parse_line_def Let_def split: if_splits)
next
  case False
  with assms(1) have "parse_element st (split l) = Inr st'"
    by (simp add: parse_line_def Let_def)
  from parse_element_inv[OF this assms(2,3)] show ?thesis .
qed

lemma parse_lines_inv:
  "parse_lines st ls = Inr st' \<Longrightarrow> distinct (map fst (node_mapping st)) \<Longrightarrow>
   \<forall>p\<in>set (node_mapping st). snd p < node_counter st \<Longrightarrow>
   distinct (map fst (node_mapping st')) \<and>
   (\<forall>p\<in>set (node_mapping st'). snd p < node_counter st')"
proof (induction ls arbitrary: st)
  case Nil
  then show ?case by simp
next
  case (Cons l ls)
  from Cons.prems(1) obtain st1 where
    s1: "parse_line st l = Inr st1" and s2: "parse_lines st1 ls = Inr st'"
    by (auto split: sum.splits)
  from parse_line_inv[OF s1 Cons.prems(2,3)] Cons.IH[OF s2] show ?case by blast
qed

lemma parse_lines_keys:
  "parse_lines st ls = Inr st' \<Longrightarrow>
   set (map fst (node_mapping st')) =
     \<Union> (line_node_names ` set (active_lines (Junk st) ls)) \<union> set (map fst (node_mapping st))"
proof (induction ls arbitrary: st)
  case Nil
  then show ?case by simp
next
  case (Cons l ls)
  from Cons.prems(1) obtain st1 where
    s1: "parse_line st l = Inr st1" and s2: "parse_lines st1 ls = Inr st'"
    by (auto split: sum.splits)
  show ?case
    unfolding parse_line_Junk[OF s1, of ls] Cons.IH[OF s2] parse_line_keys[OF s1]
    by auto
qed

lemma parsing_InrD:
  assumes "parsing lines = Inr (Rs, Vs, Is, nm, nc)"
  shows "distinct (map fst nm) \<and> (\<forall>p\<in>set nm. snd p < nc) \<and>
         set (map fst nm) = insert ''GND'' (netlist_node_names lines)"
proof -
  from assms obtain st where
    st: "parse_lines init_pstate lines = Inr st" and
    nm: "nm = node_mapping st" "nc = node_counter st"
    by (auto simp: parsing_def split: if_splits sum.splits)
  have i1: "distinct (map fst (node_mapping init_pstate))"
    and i2: "\<forall>p\<in>set (node_mapping init_pstate). snd p < node_counter init_pstate"
    by (simp_all add: init_pstate_def)
  from parse_lines_inv[OF st i1 i2] parse_lines_keys[OF st] show ?thesis
    by (auto simp: nm netlist_node_names_def init_pstate_def)
qed

section \<open>Shapes of the arrays\<close>

subsection \<open>Arrays\<close>

lemma has_shape_nth: "has_shape r c A \<Longrightarrow> i < r \<Longrightarrow> length (A ! i) = c"
  by (simp add: has_shape_def list_all_length)

lemma has_shape_nd_upd: "has_shape r c A \<Longrightarrow> has_shape r c (nd_upd A p q v)"
  by (cases "p < length A")
     (auto simp: has_shape_def nd_upd_def list_all_length nth_list_update)

lemma nd_upd_nth:
  "has_shape r c A \<Longrightarrow> p < r \<Longrightarrow> q < c \<Longrightarrow> i < r \<Longrightarrow> j < c \<Longrightarrow>
   nd_upd A p q v ! i ! j = (if i = p \<and> j = q then v else A ! i ! j)"
  by (auto simp: has_shape_def nd_upd_def list_all_length nth_list_update)

lemma np_zeros_shape:
  "np_zeros r c = Inr A \<Longrightarrow> 0 \<le> r \<and> 0 \<le> c \<and> has_shape (nat r) (nat c) A"
  by (auto simp: np_zeros_def has_shape_def list_all_length split: if_splits)


lemma py_index_nonneg: "0 \<le> i \<Longrightarrow> i < int n \<Longrightarrow> py_index n i = Some (nat i)"
  by (simp add: py_index_def)

lemma nd_set_InrD:
  "nd_set A i j v = Inr A' \<Longrightarrow>
   \<exists>p q. py_index (length A) i = Some p \<and> py_index (length (A ! p)) j = Some q \<and>
         A' = nd_upd A p q v"
  by (auto simp: nd_set_def nd_upd_def split: option.splits)

lemma nd_add_InrD:
  "nd_add A i j y = Inr A' \<Longrightarrow>
   \<exists>p q. py_index (length A) i = Some p \<and> py_index (length (A ! p)) j = Some q \<and>
         A' = nd_upd A p q (A ! p ! q + y)"
  by (auto simp: nd_add_def nd_get_def nd_set_def nd_upd_def split: option.splits sum.splits)

lemma nd_set_shape: "nd_set A i j v = Inr A' \<Longrightarrow> has_shape r c A \<Longrightarrow> has_shape r c A'"
  by (auto dest!: nd_set_InrD simp: has_shape_nd_upd)

lemma nd_add_shape: "nd_add A i j y = Inr A' \<Longrightarrow> has_shape r c A \<Longrightarrow> has_shape r c A'"
  by (auto dest!: nd_add_InrD simp: has_shape_nd_upd)

lemma nd_set_in_range:
  "has_shape r c A \<Longrightarrow> 0 \<le> i \<Longrightarrow> i < int r \<Longrightarrow> 0 \<le> j \<Longrightarrow> j < int c \<Longrightarrow>
   nd_set A i j v = Inr (nd_upd A (nat i) (nat j) v)"
proof -
  assume s: "has_shape r c A" and i: "0 \<le> i" "i < int r" and j: "0 \<le> j" "j < int c"
  from s i have "length A = r" "length (A ! nat i) = c"
    by (simp_all add: has_shape_nth) (simp add: has_shape_def)
  with i j show ?thesis
    by (simp add: nd_set_def nd_upd_def py_index_nonneg)
qed


subsection \<open>Shapes through the builder\<close>

lemma stamp_resistor_shape:
  "stamp_resistor M a b Y = Inr M' \<Longrightarrow> has_shape r c M \<Longrightarrow> has_shape r c M'"
  by (auto simp: stamp_resistor_def split: if_splits sum.splits dest: nd_add_shape)

lemma resistor_step_shape:
  "resistor_step M res = Inr M' \<Longrightarrow> has_shape r c M \<Longrightarrow> has_shape r c M'"
  by (auto simp: resistor_step_def split: option.splits if_splits dest: stamp_resistor_shape)

lemma resistor_loop_shape:
  "resistor_loop M rs = Inr M' \<Longrightarrow> has_shape r c M \<Longrightarrow> has_shape r c M'"
  by (induction rs arbitrary: M) (auto split: sum.splits dest: resistor_step_shape)

lemma current_step_shape:
  "current_step B cs = Inr B' \<Longrightarrow> has_shape r c B \<Longrightarrow> has_shape r c B'"
  by (auto simp: current_step_def split: option.splits if_splits sum.splits dest: nd_add_shape)

lemma current_loop_shape:
  "current_loop B cs = Inr B' \<Longrightarrow> has_shape r c B \<Longrightarrow> has_shape r c B'"
  by (induction cs arbitrary: B) (auto split: sum.splits dest: current_step_shape)

lemma stamp_voltage_pos_shape:
  "stamp_voltage_pos M x a = Inr M' \<Longrightarrow> has_shape r c M \<Longrightarrow> has_shape r c M'"
  by (auto simp: stamp_voltage_pos_def split: if_splits sum.splits dest: nd_set_shape)

lemma stamp_voltage_neg_shape:
  "stamp_voltage_neg M x b = Inr M' \<Longrightarrow> has_shape r c M \<Longrightarrow> has_shape r c M'"
  by (auto simp: stamp_voltage_neg_def split: if_splits sum.splits dest: nd_set_shape)

lemma voltage_step_shape:
  "voltage_step tn i (M, B) v = Inr (M', B') \<Longrightarrow> has_shape r c M \<Longrightarrow> has_shape r' c' B \<Longrightarrow>
   has_shape r c M' \<and> has_shape r' c' B'"
  by (auto simp: voltage_step_def split: option.splits sum.splits if_splits
      dest: stamp_voltage_pos_shape stamp_voltage_neg_shape nd_set_shape)

lemma voltage_loop_shape:
  "voltage_loop tn i (M, B) vs = Inr (M', B') \<Longrightarrow> has_shape r c M \<Longrightarrow> has_shape r' c' B \<Longrightarrow>
   has_shape r c M' \<and> has_shape r' c' B'"
proof (induction vs arbitrary: i M B)
  case Nil
  then show ?case by simp
next
  case (Cons v vs)
  from Cons.prems(1) obtain M1 B1 where
    s1: "voltage_step tn i (M, B) v = Inr (M1, B1)" and
    s2: "voltage_loop tn (i + 1) (M1, B1) vs = Inr (M', B')"
    by (auto split: sum.splits)
  from voltage_step_shape[OF s1 Cons.prems(2,3)] Cons.IH[OF s2] show ?case by blast
qed

lemma matrix_formation_shape:
  assumes "matrix_formation Rs Vs Is nm nc = Inr (M, B)"
  shows "0 \<le> nc - 1 + int (length Vs) \<and>
         is_square (nat (nc - 1 + int (length Vs))) M \<and>
         has_shape (nat (nc - 1 + int (length Vs))) 1 B"
proof -
  let ?d = "nc - 1 + int (length Vs)"
  from assms obtain M0 B0 M1 B1 where
    z1: "np_zeros ?d ?d = Inr M0" and z2: "np_zeros ?d 1 = Inr B0" and
    r: "resistor_loop M0 Rs = Inr M1" and c: "current_loop B0 Is = Inr B1" and
    v: "voltage_loop (nc - 1) 0 (M1, B1) Vs = Inr (M, B)"
    by (auto simp: matrix_formation_def Let_def split: sum.splits)
  from np_zeros_shape[OF z1] np_zeros_shape[OF z2]
  have d: "0 \<le> ?d" and s0: "has_shape (nat ?d) (nat ?d) M0" "has_shape (nat ?d) 1 B0"
    by auto
  from resistor_loop_shape[OF r s0(1)] current_loop_shape[OF c s0(2)]
    voltage_loop_shape[OF v]
  show ?thesis using d by (simp add: is_square_def)
qed

subsection \<open>The solver keeps the number of rows\<close>

lemma length_eliminate: "length (eliminate k rows) = length rows"
  by (simp add: eliminate_def Let_def)

lemma length_swap_rows: "length (swap_rows k p rows) = length rows"
  by (simp add: swap_rows_def)

lemma gauss_jordan_length: "gauss_jordan m k rows = Some rows' \<Longrightarrow> length rows' = length rows"
  by (induction m arbitrary: k rows)
     (auto simp: Let_def length_eliminate length_swap_rows split: if_splits)

lemma linalg_solve_length:
  "linalg_solve A B = Some X \<Longrightarrow> length X = min (length A) (length B)"
  by (auto simp: linalg_solve_def Let_def dest!: gauss_jordan_length)

section \<open>The voltages map\<close>

lemma voltages_loop_GND_kept:
  "voltages_loop v sol nm = Inr v' \<Longrightarrow> map_of v ''GND'' = Some 0 \<Longrightarrow>
   map_of v' ''GND'' = Some 0"
proof (induction nm arbitrary: v)
  case Nil
  then show ?case by simp
next
  case (Cons p nm)
  obtain node i where p: "p = (node, i)" by (cases p)
  from Cons.prems obtain v1 where
    v1: "voltages_loop v1 sol nm = Inr v'" and g: "map_of v1 ''GND'' = Some 0"
    unfolding p
    by (auto simp: map_of_dict_set split: if_splits sum.splits)
  from Cons.IH[OF v1 g] show ?case .
qed

lemma voltages_loop_GND:
  "voltages_loop v sol nm = Inr v' \<Longrightarrow> ''GND'' \<in> set (map fst nm) \<Longrightarrow>
   map_of v' ''GND'' = Some 0"
proof (induction nm arbitrary: v)
  case Nil
  then show ?case by simp
next
  case (Cons p nm)
  obtain node i where p: "p = (node, i)" by (cases p)
  show ?case
  proof (cases "node = ''GND''")
    case True
    with Cons.prems(1) have "voltages_loop (dict_set v ''GND'' 0) sol nm = Inr v'"
      by (simp add: p)
    from voltages_loop_GND_kept[OF this] show ?thesis by (simp add: map_of_dict_set)
  next
    case False
    with Cons.prems(2) have in_rest: "''GND'' \<in> set (map fst nm)" by (auto simp: p)
    from Cons.prems(1) False obtain v1 where "voltages_loop v1 sol nm = Inr v'"
      by (auto simp: p split: if_splits sum.splits)
    from Cons.IH[OF this in_rest] show ?thesis .
  qed
qed

lemma voltages_loop_keys:
  "voltages_loop v sol nm = Inr v' \<Longrightarrow> \<forall>p\<in>set nm. snd p \<le> int (length sol) \<Longrightarrow>
   distinct (map fst v @ map fst nm) \<Longrightarrow> map fst v' = map fst v @ map fst nm"
proof (induction nm arbitrary: v)
  case Nil
  then show ?case by simp
next
  case (Cons p nm)
  obtain node i where p: "p = (node, i)" by (cases p)
  from Cons.prems(3) have fresh: "node \<notin> fst ` set v" by (auto simp: p)
  from Cons.prems(2) have i: "i \<le> int (length sol)" by (simp add: p)
  from Cons.prems(1) i obtain x where
    v1: "voltages_loop (dict_set v node x) sol nm = Inr v'"
    by (auto simp: p split: if_splits sum.splits)
  have k: "map fst (dict_set v node x) = map fst v @ [node]"
    using fresh by (simp add: map_fst_dict_set)
  have "map fst v' = map fst (dict_set v node x) @ map fst nm"
  proof (rule Cons.IH[OF v1])
    show "\<forall>p\<in>set nm. snd p \<le> int (length sol)" using Cons.prems(2) by simp
    show "distinct (map fst (dict_set v node x) @ map fst nm)"
      using Cons.prems(3) by (simp add: k p)
  qed
  then show ?case by (simp add: k p)
qed

lemma evalSpice_InrD:
  assumes "evalSpice lines = Inr (voltages, currents)"
  shows "\<exists>Rs Vs Is nm nc M B sol.
           parsing lines = Inr (Rs, Vs, Is, nm, nc) \<and>
           matrix_formation Rs Vs Is nm nc = Inr (M, B) \<and>
           linalg_solve M B = Some sol \<and>
           voltages_loop [] sol nm = Inr voltages \<and>
           currents_loop [] sol nc 0 Vs = Inr currents"
  using assms
  by (auto simp: evalSpice_def split: sum.splits option.splits prod.splits)

text \<open>
  C4: whenever \<open>evalSpice\<close> returns, the voltages map has the key \<open>GND\<close> and its value is
  exactly 0.
\<close>

theorem ground_voltage_zero:
  "evalSpice lines = Inr (voltages, currents) \<Longrightarrow> map_of voltages ''GND'' = Some 0"
proof -
  assume "evalSpice lines = Inr (voltages, currents)"
  from evalSpice_InrD[OF this] obtain Rs Vs Is nm nc sol where
    p: "parsing lines = Inr (Rs, Vs, Is, nm, nc)" and
    v: "voltages_loop [] sol nm = Inr voltages"
    by blast
  from parsing_InrD[OF p] have "''GND'' \<in> set (map fst nm)" by simp
  from voltages_loop_GND[OF v this] show ?thesis .
qed

text \<open>C4 on a voltage divider: the evaluation returns and GND maps to 0.\<close>

theorem ground_voltage_zero_witness:
  "evalSpice [''.circuit'', ''Vs n1 GND dc 12'', ''Ra n1 n2 4'', ''Rb n2 GND 2'', ''.end''] =
     Inr ([(''GND'', 0), (''n1'', 12), (''n2'', 4)], [(''Vs'', - 2)]) \<and>
   map_of [(''GND'', 0), (''n1'', 12), (''n2'', 4 :: rat)] ''GND'' = Some 0"
proof -
  have e: "evalSpice [''.circuit'', ''Vs n1 GND dc 12'', ''Ra n1 n2 4'', ''Rb n2 GND 2'', ''.end''] =
     Inr ([(''GND'', 0), (''n1'', 12), (''n2'', 4)], [(''Vs'', - 2)])"
    by code_simp
  from ground_voltage_zero[OF e] e show ?thesis by simp
qed

text \<open>
  C5: whenever \<open>evalSpice\<close> returns, the keys of the voltages map are pairwise distinct and
  are exactly \<open>GND\<close> and the node names of the netlist, so the number of entries is the
  number of distinct node names, counting \<open>GND\<close>.
\<close>

theorem voltages_entry_count:
  assumes "evalSpice lines = Inr (voltages, currents)"
  shows "distinct (map fst voltages) \<and>
         set (map fst voltages) = insert ''GND'' (netlist_node_names lines) \<and>
         length voltages = card (insert ''GND'' (netlist_node_names lines))"
proof -
  from evalSpice_InrD[OF assms] obtain Rs Vs Is nm nc M B sol where
    p: "parsing lines = Inr (Rs, Vs, Is, nm, nc)" and
    m: "matrix_formation Rs Vs Is nm nc = Inr (M, B)" and
    s: "linalg_solve M B = Some sol" and
    v: "voltages_loop [] sol nm = Inr voltages"
    by blast
  from parsing_InrD[OF p] have
    d: "distinct (map fst nm)" and b: "\<forall>p\<in>set nm. snd p < nc" and
    k: "set (map fst nm) = insert ''GND'' (netlist_node_names lines)"
    by auto
  from matrix_formation_shape[OF m] have
    nonneg: "0 \<le> nc - 1 + int (length Vs)" and
    "length M = nat (nc - 1 + int (length Vs))" "length B = nat (nc - 1 + int (length Vs))"
    by (auto simp: is_square_def has_shape_def)
  with linalg_solve_length[OF s] have len: "int (length sol) = nc - 1 + int (length Vs)"
    by simp
  have "\<forall>p\<in>set nm. snd p \<le> int (length sol)"
    using b len by fastforce
  from voltages_loop_keys[OF v this] d have keys: "map fst voltages = map fst nm"
    by simp
  have dv: "distinct (map fst voltages)" using d keys by simp
  have "card (set (map fst voltages)) = length (map fst voltages)"
    by (rule distinct_card[OF dv])
  then have "length voltages = card (set (map fst voltages))" by simp
  then show ?thesis using dv k keys by simp
qed

text \<open>C5 on a netlist with the nodes \<open>a\<close> and \<open>b\<close>: three entries, three names.\<close>

theorem voltages_entry_count_witness:
  "evalSpice [''.circuit'', ''V1 a GND dc 6'', ''R1 a b 1'', ''R2 b GND 2'', ''.end''] =
     Inr ([(''GND'', 0), (''a'', 6), (''b'', 4)], [(''V1'', - 2)]) \<and>
   length [(''GND'', 0 :: rat), (''a'', 6), (''b'', 4)] =
     card (insert ''GND''
       (netlist_node_names [''.circuit'', ''V1 a GND dc 6'', ''R1 a b 1'', ''R2 b GND 2'', ''.end'']))"
proof -
  have e: "evalSpice [''.circuit'', ''V1 a GND dc 6'', ''R1 a b 1'', ''R2 b GND 2'', ''.end''] =
     Inr ([(''GND'', 0), (''a'', 6), (''b'', 4)], [(''V1'', - 2)])"
    by code_simp
  from voltages_entry_count[OF e] e show ?thesis by simp
qed

section \<open>The resistor stamp\<close>


lemma nd_add_last:
  assumes "has_shape r c A" "0 < r" "0 < c"
  shows "\<exists>A'. nd_add A (- 1) (- 1) y = Inr A' \<and> has_shape r c A' \<and>
           (\<forall>p<r. \<forall>q<c. A' ! p ! q = A ! p ! q + unit_entry (r - 1) (c - 1) y p q)"
proof -
  from assms(2,3) obtain r' c' where rc: "r = Suc r'" "c = Suc c'"
    by (cases r; cases c) auto
  let ?A' = "nd_upd A r' c' (A ! r' ! c' + y)"
  from assms(1) have len: "length A = Suc r'" "length (A ! r') = Suc c'"
    by (simp_all add: has_shape_nth rc) (simp add: has_shape_def rc)
  have ir: "py_index (Suc r') (- 1) = Some r'" "py_index (Suc c') (- 1) = Some c'"
    by (simp_all add: py_index_def)
  have "nd_add A (- 1) (- 1) y = Inr ?A'"
    by (simp add: nd_add_def nd_get_def nd_set_def nd_upd_def len ir)
  moreover have "has_shape r c ?A'" by (rule has_shape_nd_upd[OF assms(1)])
  moreover have "\<forall>p<r. \<forall>q<c. ?A' ! p ! q = A ! p ! q + unit_entry (r - 1) (c - 1) y p q"
    using assms by (auto simp: nd_upd_nth[OF assms(1)] unit_entry_def rc)
  ultimately show ?thesis by blast
qed





section \<open>A resistor from ground to ground\<close>




text \<open>
  A resistor between ground and ground whose value converts to an infinity has conductance
  zero: on a matrix that is not empty the iteration succeeds and every entry keeps its
  value.
\<close>

lemma ground_resistor_infinite:
  assumes sq: "is_square d M" and d: "0 < d"
      and a: "py_int (n1 r) = Some 0" and b: "py_int (n2 r) = Some 0"
      and x: "py_float (val r) = None" "float_is_inf (val r)"
  shows "\<exists>M'. resistor_step M r = Inr M' \<and> is_square d M' \<and>
           (\<forall>i<d. \<forall>j<d. M' ! i ! j = M ! i ! j)"
proof -
  from sq have sh: "has_shape d d M" by (simp add: is_square_def)
  from nd_add_last[OF sh d d, of 0] obtain M' where
    m: "nd_add M (- 1) (- 1) 0 = Inr M'" and s: "has_shape d d M'" and
    e: "\<forall>p<d. \<forall>q<d. M' ! p ! q = M ! p ! q + unit_entry (d - 1) (d - 1) 0 p q"
    by blast
  have res: "resistor_step M r = Inr M'"
    by (simp add: resistor_step_def float_of_bool_def str_eq_int_def a b x
        stamp_resistor_def m)
  from e have "\<forall>p<d. \<forall>q<d. M' ! p ! q = M ! p ! q" by (simp add: unit_entry_def)
  with res s show ?thesis by (auto simp: is_square_def)
qed

text \<open>The same for the literal \<open>1e400\<close>, on the matrix of one node that holds 1/4.\<close>

lemma ground_resistor_1e400:
  "resistor_step [[1 / 4]] \<lparr>name = ''R2'', n1 = ''0'', n2 = ''0'', val = ''1e400''\<rparr> =
     Inr [[1 / 4]]"
proof -
  have a: "py_int ''0'' = Some 0" by code_simp
  show ?thesis
    using float_1e400
    by (simp add: resistor_step_def float_of_bool_def str_eq_int_def a stamp_resistor_def
        nd_add_def nd_get_def nd_set_def py_index_def)
qed

section \<open>Blocks\<close>

lemma parse_lines_append:
  "parse_lines st (xs @ ys) =
     (case parse_lines st xs of Inl e \<Rightarrow> Inl e | Inr st' \<Rightarrow> parse_lines st' ys)"
  by (induction xs arbitrary: st) (auto split: sum.splits)

lemma parse_line_circuit: "strip l = ''.circuit'' \<Longrightarrow> parse_line st l = Inr (st\<lparr>Junk := False\<rparr>)"
  by (simp add: parse_line_def)

lemma parse_line_end: "strip l = ''.end'' \<Longrightarrow> parse_line st l = Inr (st\<lparr>Junk := True\<rparr>)"
  by (simp add: parse_line_def)

lemma parse_line_outside: "Junk st \<Longrightarrow> not_marker l \<Longrightarrow> parse_line st l = Inr st"
  by (simp add: parse_line_def not_marker_def)

lemma parse_lines_outside: "Junk st \<Longrightarrow> list_all not_marker ls \<Longrightarrow> parse_lines st ls = Inr st"
  by (induction ls) (auto simp: parse_line_outside)

lemma parse_line_keeps_Junk:
  "parse_line st l = Inr st' \<Longrightarrow> not_marker l \<Longrightarrow> Junk st' = Junk st"
  using parse_element_InrD[of st "split l" st']
  by (auto simp: parse_line_def not_marker_def Let_def split: if_splits)

lemma parse_lines_keeps_Junk:
  "parse_lines st ls = Inr st' \<Longrightarrow> list_all not_marker ls \<Longrightarrow> Junk st' = Junk st"
proof (induction ls arbitrary: st)
  case Nil
  then show ?case by simp
next
  case (Cons l ls)
  from Cons.prems(1) obtain st1 where
    s1: "parse_line st l = Inr st1" and s2: "parse_lines st1 ls = Inr st'"
    by (auto split: sum.splits)
  from Cons.prems(2) have nm: "not_marker l" "list_all not_marker ls" by simp_all
  from parse_line_keeps_Junk[OF s1 nm(1)] Cons.IH[OF s2 nm(2)] show ?case by simp
qed

lemma reopen_block: "\<not> Junk st \<Longrightarrow> st\<lparr>Junk := True\<rparr>\<lparr>Junk := False\<rparr> = st"
  by (cases st) simp

lemma has_marker:
  "l \<in> set ls \<Longrightarrow> strip l = m \<Longrightarrow> length (filter (\<lambda>l. strip l \<noteq> m) ls) \<noteq> length ls"
  using length_filter_less[of l ls "\<lambda>l. strip l \<noteq> m"] by auto

lemma parsing_with_markers:
  "c \<in> set ls \<Longrightarrow> strip c = ''.circuit'' \<Longrightarrow> e \<in> set ls \<Longrightarrow> strip e = ''.end'' \<Longrightarrow>
   parsing ls =
     (case parse_lines init_pstate ls of
        Inl err \<Rightarrow> Inl err
      | Inr st \<Rightarrow> Inr (Resistors st, Voltage_sources st, Current_sources st,
                      node_mapping st, node_counter st))"
  by (simp add: parsing_def has_marker)

text \<open>
  The main loop on a file with two blocks, and text around them, ends in the state in
  which it ends on the single block that holds the lines of both.
\<close>

lemma parse_lines_two_blocks:
  assumes c: "strip c1 = ''.circuit''" "strip c2 = ''.circuit''"
      and e: "strip e1 = ''.end''" "strip e2 = ''.end''"
      and nm: "list_all not_marker (lead @ b1 @ between @ b2 @ trail)"
  shows "parse_lines init_pstate
           (lead @ [c1] @ b1 @ [e1] @ between @ [c2] @ b2 @ [e2] @ trail) =
         parse_lines init_pstate ([c1] @ b1 @ b2 @ [e2])"
proof -
  let ?s0 = "init_pstate\<lparr>Junk := False\<rparr>"
  from nm have n: "list_all not_marker lead" "list_all not_marker b1"
    "list_all not_marker between" "list_all not_marker b2" "list_all not_marker trail"
    by simp_all
  have lead: "parse_lines init_pstate lead = Inr init_pstate"
    by (rule parse_lines_outside[OF _ n(1)]) (simp add: init_pstate_def)
  show ?thesis
  proof (cases "parse_lines ?s0 b1")
    case (Inl err)
    then show ?thesis
      by (simp add: parse_lines_append lead parse_line_circuit[OF c(1)])
  next
    case (Inr s1)
    from parse_lines_keeps_Junk[OF Inr n(2)] have j1: "\<not> Junk s1" by simp
    have between: "parse_lines (s1\<lparr>Junk := True\<rparr>) between = Inr (s1\<lparr>Junk := True\<rparr>)"
      by (rule parse_lines_outside[OF _ n(3)]) simp
    show ?thesis
    proof (cases "parse_lines s1 b2")
      case (Inl err)
      then show ?thesis
        by (simp add: parse_lines_append lead parse_line_circuit[OF c(1)] Inr
            parse_line_end[OF e(1)] between parse_line_circuit[OF c(2)] reopen_block[OF j1])
    next
      case second: (Inr s2)
      have trail: "parse_lines (s2\<lparr>Junk := True\<rparr>) trail = Inr (s2\<lparr>Junk := True\<rparr>)"
        by (rule parse_lines_outside[OF _ n(5)]) simp
      show ?thesis
        by (simp add: parse_lines_append lead parse_line_circuit[OF c(1)] Inr
            parse_line_end[OF e(1)] between parse_line_circuit[OF c(2)] reopen_block[OF j1]
            second parse_line_end[OF e(2)] trail)
    qed
  qed
qed

text \<open>
  The case of two blocks with text before, between and after them, stated directly: the
  file is parsed, and evaluated, as the single block that holds the lines of both.
\<close>

lemma two_blocks_are_one_circuit:
  assumes c: "strip c1 = ''.circuit''" "strip c2 = ''.circuit''"
      and e: "strip e1 = ''.end''" "strip e2 = ''.end''"
      and nm: "list_all not_marker (lead @ b1 @ between @ b2 @ trail)"
  shows "parsing (lead @ [c1] @ b1 @ [e1] @ between @ [c2] @ b2 @ [e2] @ trail) =
           parsing ([c1] @ b1 @ b2 @ [e2]) \<and>
         evalSpice (lead @ [c1] @ b1 @ [e1] @ between @ [c2] @ b2 @ [e2] @ trail) =
           evalSpice ([c1] @ b1 @ b2 @ [e2])"
proof -
  let ?two = "lead @ [c1] @ b1 @ [e1] @ between @ [c2] @ b2 @ [e2] @ trail"
  let ?one = "[c1] @ b1 @ b2 @ [e2]"
  have "parsing ?two =
     (case parse_lines init_pstate ?two of
        Inl err \<Rightarrow> Inl err
      | Inr st \<Rightarrow> Inr (Resistors st, Voltage_sources st, Current_sources st,
                      node_mapping st, node_counter st))"
    by (rule parsing_with_markers[of c1 _ e1]) (simp_all add: c e)
  moreover have "parsing ?one =
     (case parse_lines init_pstate ?one of
        Inl err \<Rightarrow> Inl err
      | Inr st \<Rightarrow> Inr (Resistors st, Voltage_sources st, Current_sources st,
                      node_mapping st, node_counter st))"
    by (rule parsing_with_markers[of c1 _ e2]) (simp_all add: c e)
  ultimately have p: "parsing ?two = parsing ?one"
    by (simp only: parse_lines_two_blocks[OF c e nm])
  then show ?thesis by (simp only: evalSpice_def)
qed

lemma still_inside: "\<not> Junk st \<Longrightarrow> st\<lparr>Junk := False\<rparr> = st"
  by (cases st) simp

text \<open>
  Up to the final value of the flag, the main loop does on a file what it does, inside a
  block, on the lines of the file that stand inside a block.
\<close>

lemma parse_lines_active:
  "map_sum id (\<lambda>s. s\<lparr>Junk := j\<rparr>) (parse_lines st ls) =
   map_sum id (\<lambda>s. s\<lparr>Junk := j\<rparr>)
     (parse_lines (st\<lparr>Junk := False\<rparr>) (active_lines (Junk st) ls))"
proof (induction ls arbitrary: st)
  case Nil
  then show ?case by simp
next
  case (Cons l ls)
  consider (opens) "strip l = ''.circuit''" | (closes) "strip l = ''.end''"
    | (outside) "not_marker l" "Junk st" | (inside) "not_marker l" "\<not> Junk st"
    by (auto simp: not_marker_def)
  then show ?case
  proof cases
    case opens
    with Cons.IH[of "st\<lparr>Junk := False\<rparr>"] show ?thesis
      by (simp add: parse_line_circuit)
  next
    case closes
    with Cons.IH[of "st\<lparr>Junk := True\<rparr>"] show ?thesis
      by (simp add: parse_line_end)
  next
    case outside
    with Cons.IH[of st] show ?thesis
      by (simp add: parse_line_outside not_marker_def)
  next
    case inside
    note same = still_inside[OF inside(2)]
    show ?thesis
    proof (cases "parse_line st l")
      case (Inl err)
      with inside show ?thesis by (simp add: not_marker_def same)
    next
      case (Inr s1)
      from parse_line_keeps_Junk[OF Inr inside(1)] inside(2) have j1: "\<not> Junk s1" by simp
      from Cons.IH[of s1] j1 inside Inr show ?thesis
        by (simp add: not_marker_def same still_inside[OF j1])
    qed
  qed
qed

lemma active_lines_not_marker: "list_all not_marker (active_lines outside ls)"
  by (induction ls arbitrary: outside) (auto simp: not_marker_def)

lemma active_lines_inside: "list_all not_marker ls \<Longrightarrow> active_lines False ls = ls"
  by (induction ls) (auto simp: not_marker_def)

lemma active_lines_outside: "list_all not_marker ls \<Longrightarrow> active_lines True ls = []"
  by (induction ls) (auto simp: not_marker_def)

lemma active_lines_append_outside:
  "list_all not_marker xs \<Longrightarrow> active_lines True (xs @ ys) = active_lines True ys"
  by (induction xs) (auto simp: not_marker_def)

lemma active_lines_append_inside:
  "list_all not_marker xs \<Longrightarrow> active_lines False (xs @ ys) = xs @ active_lines False ys"
  by (induction xs) (auto simp: not_marker_def)

lemma active_lines_two_blocks:
  assumes c: "strip c1 = ''.circuit''" "strip c2 = ''.circuit''"
      and e: "strip e1 = ''.end''" "strip e2 = ''.end''"
      and nm: "list_all not_marker (lead @ b1 @ between @ b2 @ trail)"
  shows "active_lines True
           (lead @ [c1] @ b1 @ [e1] @ between @ [c2] @ b2 @ [e2] @ trail) = b1 @ b2"
proof -
  from nm have n: "list_all not_marker lead" "list_all not_marker b1"
    "list_all not_marker between" "list_all not_marker b2" "list_all not_marker trail"
    by simp_all
  show ?thesis
    by (simp add: active_lines_append_outside[OF n(1)] c e
        active_lines_append_inside[OF n(2)] active_lines_append_outside[OF n(3)]
        active_lines_append_inside[OF n(4)] active_lines_outside[OF n(5)])
qed

text \<open>
  C10: a file with a \<open>.circuit\<close> line and an \<open>.end\<close> line is parsed, and evaluated, as the
  single block that holds every line standing inside some block of the file, in file
  order: each \<open>.circuit\<close> line opens a block and each \<open>.end\<close> line closes it, and the
  components and nodes of all blocks form one circuit.
\<close>

theorem all_blocks_are_one_circuit:
  assumes c: "c \<in> set ls" "strip c = ''.circuit''" and e: "e \<in> set ls" "strip e = ''.end''"
  shows "parsing ls = parsing ([''.circuit''] @ active_lines True ls @ [''.end'']) \<and>
         evalSpice ls = evalSpice ([''.circuit''] @ active_lines True ls @ [''.end''])"
proof -
  let ?one = "[''.circuit''] @ active_lines True ls @ [''.end'']"
  let ?out = "\<lambda>st. (Resistors st, Voltage_sources st, Current_sources st,
                    node_mapping st, node_counter st)"
  let ?s0 = "init_pstate\<lparr>Junk := False\<rparr>"
  have mc: "strip ''.circuit'' = ''.circuit''" and me: "strip ''.end'' = ''.end''"
    by code_simp+
  have out: "(case r of Inl err \<Rightarrow> Inl err | Inr st \<Rightarrow> Inr (?out st)) =
             (case map_sum id (\<lambda>s. s\<lparr>Junk := True\<rparr>) r of
                Inl err \<Rightarrow> Inl err | Inr st \<Rightarrow> Inr (?out st))" for r
    by (cases r) simp_all
  have "parse_lines init_pstate ?one =
          (case parse_lines ?s0 (active_lines True ls) of
             Inl err \<Rightarrow> Inl err | Inr s \<Rightarrow> Inr (s\<lparr>Junk := True\<rparr>))"
    by (simp add: parse_lines_append parse_line_circuit[OF mc] parse_line_end[OF me]
        split: sum.splits)
  then have one: "map_sum id (\<lambda>s. s\<lparr>Junk := True\<rparr>) (parse_lines init_pstate ?one) =
                  map_sum id (\<lambda>s. s\<lparr>Junk := True\<rparr>) (parse_lines ?s0 (active_lines True ls))"
    by (simp split: sum.splits)
  have "Junk init_pstate" by (simp add: init_pstate_def)
  with parse_lines_active[of True init_pstate ls]
  have all: "map_sum id (\<lambda>s. s\<lparr>Junk := True\<rparr>) (parse_lines init_pstate ls) =
             map_sum id (\<lambda>s. s\<lparr>Junk := True\<rparr>) (parse_lines ?s0 (active_lines True ls))"
    by simp
  have "parsing ls = (case parse_lines init_pstate ls of
                        Inl err \<Rightarrow> Inl err | Inr st \<Rightarrow> Inr (?out st))"
    by (rule parsing_with_markers[OF c e])
  moreover have "parsing ?one = (case parse_lines init_pstate ?one of
                        Inl err \<Rightarrow> Inl err | Inr st \<Rightarrow> Inr (?out st))"
    by (rule parsing_with_markers[of "''.circuit''" _ "''.end''"]) (simp_all add: mc me)
  ultimately have p: "parsing ls = parsing ?one"
    by (simp only: out[of "parse_lines init_pstate ls"]
        out[of "parse_lines init_pstate ?one"] one all)
  then show ?thesis by (simp only: evalSpice_def)
qed

text \<open>
  C10 on a file whose first block holds a resistor and whose second block holds the
  source: the resistor and the source form one circuit.
\<close>

theorem all_blocks_are_one_circuit_witness:
  "active_lines True [''* divider'', ''.circuit'', ''R1 a GND 5'', ''.end'', ''between'',
                      ''.circuit'', ''V1 a GND dc 10'', ''.end'', ''after''] =
     [''R1 a GND 5'', ''V1 a GND dc 10''] \<and>
   evalSpice [''* divider'', ''.circuit'', ''R1 a GND 5'', ''.end'', ''between'',
              ''.circuit'', ''V1 a GND dc 10'', ''.end'', ''after''] =
     Inr ([(''GND'', 0), (''a'', 10)], [(''V1'', - 2)])"
proof -
  let ?ls = "[''* divider'', ''.circuit'', ''R1 a GND 5'', ''.end'', ''between'',
              ''.circuit'', ''V1 a GND dc 10'', ''.end'', ''after'']"
  have c: "''.circuit'' \<in> set ?ls" "strip ''.circuit'' = ''.circuit''"
    and e: "''.end'' \<in> set ?ls" "strip ''.end'' = ''.end''"
    by code_simp+
  have act: "active_lines True ?ls = [''R1 a GND 5'', ''V1 a GND dc 10'']"
    by code_simp
  have one: "evalSpice ([''.circuit''] @ [''R1 a GND 5'', ''V1 a GND dc 10''] @ [''.end'']) =
     Inr ([(''GND'', 0), (''a'', 10)], [(''V1'', - 2)])"
    by code_simp
  from all_blocks_are_one_circuit[OF c e] act one show ?thesis by simp
qed

section \<open>Duplicate names\<close>

text \<open>Each of the three name sets holds the names of the components of its kind parsed so far.\<close>

lemma parse_element_names:
  assumes "parse_element st w = Inr st'"
      and "resistor_names st = name ` set (Resistors st)"
      and "voltage_source_names st = name ` set (Voltage_sources st)"
      and "current_source_names st = name ` set (Current_sources st)"
  shows "resistor_names st' = name ` set (Resistors st') \<and>
         voltage_source_names st' = name ` set (Voltage_sources st') \<and>
         current_source_names st' = name ` set (Current_sources st')"
  using assms
  by (auto simp: parse_element_def Let_def split_beta split: if_splits)

lemma parse_line_names:
  assumes "parse_line st l = Inr st'"
      and "resistor_names st = name ` set (Resistors st)"
      and "voltage_source_names st = name ` set (Voltage_sources st)"
      and "current_source_names st = name ` set (Current_sources st)"
  shows "resistor_names st' = name ` set (Resistors st') \<and>
         voltage_source_names st' = name ` set (Voltage_sources st') \<and>
         current_source_names st' = name ` set (Current_sources st')"
proof (cases "strip l = ''.circuit'' \<or> strip l = ''.end'' \<or> Junk st \<or> split l = []")
  case True
  with assms show ?thesis
    by (auto simp: parse_line_def Let_def split: if_splits)
next
  case False
  with assms(1) have "parse_element st (split l) = Inr st'"
    by (simp add: parse_line_def Let_def)
  from parse_element_names[OF this assms(2-4)] show ?thesis .
qed

lemma parse_lines_names:
  "parse_lines st ls = Inr st' \<Longrightarrow>
   resistor_names st = name ` set (Resistors st) \<Longrightarrow>
   voltage_source_names st = name ` set (Voltage_sources st) \<Longrightarrow>
   current_source_names st = name ` set (Current_sources st) \<Longrightarrow>
   resistor_names st' = name ` set (Resistors st') \<and>
   voltage_source_names st' = name ` set (Voltage_sources st') \<and>
   current_source_names st' = name ` set (Current_sources st')"
proof (induction ls arbitrary: st)
  case Nil
  then show ?case by simp
next
  case (Cons l ls)
  from Cons.prems(1) obtain st1 where
    s1: "parse_line st l = Inr st1" and s2: "parse_lines st1 ls = Inr st'"
    by (auto split: sum.splits)
  from parse_line_names[OF s1 Cons.prems(2-4)] have
    "resistor_names st1 = name ` set (Resistors st1)"
    "voltage_source_names st1 = name ` set (Voltage_sources st1)"
    "current_source_names st1 = name ` set (Current_sources st1)"
    by simp_all
  from Cons.IH[OF s2 this] show ?case .
qed

lemma parse_lines_init_names:
  assumes "parse_lines init_pstate ls = Inr st"
  shows "resistor_names st = name ` set (Resistors st) \<and>
         voltage_source_names st = name ` set (Voltage_sources st) \<and>
         current_source_names st = name ` set (Current_sources st)"
  by (rule parse_lines_names[OF assms]) (simp_all add: init_pstate_def)

text \<open>Which element lines raise which duplicate-name error.\<close>

lemma parse_element_duplicate:
  assumes "3 \<le> length w"
  shows "(parse_element st w = Inl DuplicateResistor \<longleftrightarrow>
            upper_char (hd (hd w)) = CHR ''R'' \<and> w ! 0 \<in> resistor_names st) \<and>
         (parse_element st w = Inl DuplicateVoltageSource \<longleftrightarrow>
            upper_char (hd (hd w)) = CHR ''V'' \<and> w ! 0 \<in> voltage_source_names st) \<and>
         (parse_element st w = Inl DuplicateCurrentSource \<longleftrightarrow>
            upper_char (hd (hd w)) = CHR ''I'' \<and> w ! 0 \<in> current_source_names st)"
  using assms
  by (auto simp: parse_element_def Let_def split_beta split: if_splits)

lemma parse_lines_stays_outside:
  "parse_lines st ls = Inr st' \<Longrightarrow> Junk st \<Longrightarrow> \<forall>l\<in>set ls. strip l \<noteq> ''.circuit'' \<Longrightarrow>
   Junk st'"
proof (induction ls arbitrary: st)
  case Nil
  then show ?case by simp
next
  case (Cons l ls)
  from Cons.prems(3) have nc: "strip l \<noteq> ''.circuit''" "\<forall>l\<in>set ls. strip l \<noteq> ''.circuit''"
    by simp_all
  from Cons.prems(1,2) nc(1) obtain st1 where
    s2: "parse_lines st1 ls = Inr st'" and j: "Junk st1"
    by (auto simp: parse_line_def split: if_splits sum.splits)
  from Cons.IH[OF s2 j nc(2)] show ?case .
qed

lemma parse_lines_fails_at:
  "parse_lines st0 pre = Inr st \<Longrightarrow> parse_line st l = Inl err \<Longrightarrow>
   parse_lines st0 (pre @ l # post) = Inl err"
  by (simp add: parse_lines_append)


text \<open>
  C6: consider an element line with at least its name and two node tokens, inside a block,
  after lines that were accepted. It raises the duplicate-name error of resistors exactly
  when it is a resistor line and a resistor parsed before has the same name token, and
  likewise for voltage sources and for current sources: the names of the components of the
  other kinds play no part. When it raises one, the whole file fails with that error; so a
  netlist with two resistors of the same name fails with the duplicate-name error of
  resistors.
\<close>

theorem duplicate_names_within_kind:
  assumes pre: "parse_lines init_pstate pre = Inr st"
      and inside: "\<not> Junk st" and l: "not_marker l" and w: "3 \<le> length (split l)"
      and e: "e \<in> set (pre @ l # post)" "strip e = ''.end''"
  shows "(parse_line st l = Inl DuplicateResistor \<longleftrightarrow>
            upper_char (hd (hd (split l))) = CHR ''R'' \<and>
            split l ! 0 \<in> name ` set (Resistors st)) \<and>
         (parse_line st l = Inl DuplicateVoltageSource \<longleftrightarrow>
            upper_char (hd (hd (split l))) = CHR ''V'' \<and>
            split l ! 0 \<in> name ` set (Voltage_sources st)) \<and>
         (parse_line st l = Inl DuplicateCurrentSource \<longleftrightarrow>
            upper_char (hd (hd (split l))) = CHR ''I'' \<and>
            split l ! 0 \<in> name ` set (Current_sources st)) \<and>
         (upper_char (hd (hd (split l))) = CHR ''R'' \<and>
          split l ! 0 \<in> name ` set (Resistors st) \<longrightarrow>
            parsing (pre @ l # post) = Inl DuplicateResistor) \<and>
         (upper_char (hd (hd (split l))) = CHR ''V'' \<and>
          split l ! 0 \<in> name ` set (Voltage_sources st) \<longrightarrow>
            parsing (pre @ l # post) = Inl DuplicateVoltageSource) \<and>
         (upper_char (hd (hd (split l))) = CHR ''I'' \<and>
          split l ! 0 \<in> name ` set (Current_sources st) \<longrightarrow>
            parsing (pre @ l # post) = Inl DuplicateCurrentSource)"
proof -
  from l inside w have line: "parse_line st l = parse_element st (split l)"
    by (auto simp: parse_line_def not_marker_def Let_def)
  note names = parse_lines_init_names[OF pre]
  have dup:
    "parse_line st l = Inl DuplicateResistor \<longleftrightarrow>
       upper_char (hd (hd (split l))) = CHR ''R'' \<and> split l ! 0 \<in> name ` set (Resistors st)"
    "parse_line st l = Inl DuplicateVoltageSource \<longleftrightarrow>
       upper_char (hd (hd (split l))) = CHR ''V'' \<and>
       split l ! 0 \<in> name ` set (Voltage_sources st)"
    "parse_line st l = Inl DuplicateCurrentSource \<longleftrightarrow>
       upper_char (hd (hd (split l))) = CHR ''I'' \<and>
       split l ! 0 \<in> name ` set (Current_sources st)"
    using parse_element_duplicate[OF w, of st] names by (simp_all add: line)
  have "\<exists>c\<in>set pre. strip c = ''.circuit''"
  proof (rule ccontr)
    assume "\<not> (\<exists>c\<in>set pre. strip c = ''.circuit'')"
    then have "\<forall>l\<in>set pre. strip l \<noteq> ''.circuit''" by simp
    from parse_lines_stays_outside[OF pre _ this] inside show False
      by (simp add: init_pstate_def)
  qed
  then obtain c where c: "c \<in> set (pre @ l # post)" "strip c = ''.circuit''" by auto
  have fails: "parsing (pre @ l # post) = Inl err" if "parse_line st l = Inl err" for err
    by (simp add: parsing_with_markers[OF c e] parse_lines_fails_at[OF pre that])
  from dup fails show ?thesis by blast
qed

text \<open>
  C6 on a netlist with two resistors named \<open>R1\<close>, a voltage source between them: the second
  \<open>R1\<close> line raises the duplicate-name error of resistors.
\<close>

theorem duplicate_names_within_kind_witness:
  "parse_lines init_pstate [''.circuit'', ''R1 1 GND 5'', ''V1 1 GND dc 3''] =
     Inr \<lparr>Resistors = [\<lparr>name = ''R1'', n1 = ''1'', n2 = ''0'', val = ''5''\<rparr>],
          Voltage_sources = [\<lparr>name = ''V1'', n1 = ''1'', n2 = ''0'', val = ''3''\<rparr>],
          Current_sources = [],
          node_mapping = [(''GND'', 0), (''1'', 1)], node_counter = 2, Junk = False,
          resistor_names = {''R1''}, voltage_source_names = {''V1''},
          current_source_names = {}\<rparr> \<and>
   not_marker ''R1 2 GND 7'' \<and> 3 \<le> length (split ''R1 2 GND 7'') \<and>
   parsing [''.circuit'', ''R1 1 GND 5'', ''V1 1 GND dc 3'', ''R1 2 GND 7'', ''.end''] =
     Inl DuplicateResistor"
proof -
  let ?st = "\<lparr>Resistors = [\<lparr>name = ''R1'', n1 = ''1'', n2 = ''0'', val = ''5''\<rparr>],
          Voltage_sources = [\<lparr>name = ''V1'', n1 = ''1'', n2 = ''0'', val = ''3''\<rparr>],
          Current_sources = [],
          node_mapping = [(''GND'', 0), (''1'', 1)], node_counter = 2, Junk = False,
          resistor_names = {''R1''}, voltage_source_names = {''V1''},
          current_source_names = {}\<rparr>"
  have pre: "parse_lines init_pstate [''.circuit'', ''R1 1 GND 5'', ''V1 1 GND dc 3''] = Inr ?st"
    by code_simp
  have inside: "\<not> Junk ?st" by simp
  have l: "not_marker ''R1 2 GND 7''" and w: "3 \<le> length (split ''R1 2 GND 7'')"
    by code_simp+
  have e: "''.end'' \<in> set ([''.circuit'', ''R1 1 GND 5'', ''V1 1 GND dc 3''] @
             ''R1 2 GND 7'' # [''.end''])" "strip ''.end'' = ''.end''"
    by code_simp+
  have k: "upper_char (hd (hd (split ''R1 2 GND 7''))) = CHR ''R''"
    and n: "split ''R1 2 GND 7'' ! 0 \<in> name ` set (Resistors ?st)"
    by code_simp+
  from duplicate_names_within_kind[OF pre inside l w e] k n pre l w show ?thesis
    by simp
qed

section \<open>Short element lines, in general\<close>

text \<open>
  An element line of one or two tokens raises IndexError whatever its first character,
  and so does the file. With three tokens, or four on a source line, and a name not used
  before by its kind, the line raises the insufficient-data error of its kind.
\<close>

lemma parse_element_short: "length w < 3 \<Longrightarrow> parse_element st w = Inl IndexError"
  by (simp add: parse_element_def Let_def)

lemma parsing_short_line:
  assumes pre: "parse_lines init_pstate pre = Inr st"
      and inside: "\<not> Junk st" and l: "not_marker l"
      and w: "0 < length (split l)" "length (split l) < 3"
  shows "parse_lines init_pstate (pre @ l # post) = Inl IndexError"
proof -
  from l inside w have "parse_line st l = Inl IndexError"
    by (simp add: parse_line_def not_marker_def Let_def parse_element_short)
  from parse_lines_fails_at[OF pre this] show ?thesis .
qed

lemma parse_element_insufficient:
  assumes "3 \<le> length w"
  shows "upper_char (hd (hd w)) = CHR ''R'' \<Longrightarrow> w ! 0 \<notin> resistor_names st \<Longrightarrow>
           length w < 4 \<Longrightarrow> parse_element st w = Inl InsufficientResistor"
    and "upper_char (hd (hd w)) = CHR ''V'' \<Longrightarrow> w ! 0 \<notin> voltage_source_names st \<Longrightarrow>
           length w < 5 \<Longrightarrow> parse_element st w = Inl InsufficientVoltageSource"
    and "upper_char (hd (hd w)) = CHR ''I'' \<Longrightarrow> w ! 0 \<notin> current_source_names st \<Longrightarrow>
           length w < 5 \<Longrightarrow> parse_element st w = Inl InsufficientCurrentSource"
  using assms by (simp_all add: parse_element_def Let_def split_beta)

section \<open>The voltage source stamp\<close>





















end
